theory Spec2Isabelle
  imports Complex_Main
begin

chapter \<open>RaPlaT r.MaxPower: ranking of received power and its persistence\<close>

text \<open>
  A shallow embedding of \<^verbatim>\<open>src/raster/r.MaxPower/main.c\<close>: the loop of \<^verbatim>\<open>main\<close> that
  folds the path-loss rasters of the radio cells into the \<^verbatim>\<open>cell_num\<close> strongest
  received powers of every raster point, the conversion of the power sum, the selection
  of the output raster, and the functions \<^verbatim>\<open>create_table\<close> and \<^verbatim>\<open>fill_database\<close>
  that write the data table or the CSV file.

  Conventions of the embedding.
  \<^item> The C type \<^verbatim>\<open>float\<close> (\<^verbatim>\<open>FCELL\<close>) is modelled by \<^typ>\<open>real\<close>: the program only
    compares, copies, adds and subtracts these values, and rounding is left out. A null
    raster cell is \<^term>\<open>None\<close>; the program turns it into \<^verbatim>\<open>DB_MIN_VAL\<close> before any
    comparison, so no NaN takes part in one.
  \<^item> \<^verbatim>\<open>DB_MIN_VAL\<close> comes from \<^verbatim>\<open>common.h\<close>, which is not among the sources (a comment
    of \<^verbatim>\<open>main\<close> gives \<^verbatim>\<open>-999\<close>); it is the parameter \<open>dbmin\<close> of every function that
    uses it, and every theorem holds for each of its values.
  \<^item> The C type \<^verbatim>\<open>int\<close> is modelled by \<^typ>\<open>int\<close> and \<^typ>\<open>nat\<close> without overflow.
  \<^item> The arrays \<^verbatim>\<open>arr_power\<close> and \<^verbatim>\<open>arr_index\<close> have \<^verbatim>\<open>cell_num\<close> planes of
    \<^verbatim>\<open>nrows*ncols\<close> points. The loop body of \<^verbatim>\<open>main\<close> at the point \<^verbatim>\<open>arr_ix\<close> reads and
    writes only the column \<^verbatim>\<open>arr_ix\<close> of both arrays, \<^verbatim>\<open>arr_sumpower[arr_ix]\<close> and the
    scalar \<^verbatim>\<open>count_mem\<close>; the record \<open>point_state\<close> holds exactly these.
  \<^item> What the program does to the outside (the database driver, files, the raster
    library, messages) is a list of \<open>io\<close> events; \<^verbatim>\<open>G_fatal_error\<close> ends the run with
    the events so far and the message.
\<close>

section \<open>The model\<close>

subsection \<open>Ranking the received powers of one point (main, lines 793-869)\<close>

text \<open>
  The state of one raster point: \<open>pw s ! k\<close> is \<^verbatim>\<open>arr_power[k][arr_ix]\<close> and
  \<open>ix s ! k\<close> is \<^verbatim>\<open>arr_index[k][arr_ix]\<close> for \<open>k < cell_num\<close>; \<open>sumpower\<close> is
  \<^verbatim>\<open>arr_sumpower[arr_ix]\<close>; \<open>count_mem\<close> is the variable of that name.
\<close>

record point_state =
  pw :: "real list"
  ix :: "nat list"
  sumpower :: real
  count_mem :: nat

text \<open>
  Lines 820-821: the received power of a raster cell, \<^verbatim>\<open>DB_MIN_VAL\<close> for a null cell
  and \<^verbatim>\<open>Pt[map] - inrast[col]\<close> otherwise.
\<close>

definition receive_power :: "real \<Rightarrow> real \<Rightarrow> real option \<Rightarrow> real" where
  "receive_power dbmin Pt cell = (case cell of None \<Rightarrow> dbmin | Some loss \<Rightarrow> Pt - loss)"

text \<open>
  Lines 818 and 825-826: the sum of the powers in mW is reset at the first map and
  grows by \<^verbatim>\<open>pow(10.0, f_in / 10.0)\<close> for a reading above \<^verbatim>\<open>DB_MIN_VAL\<close>.
\<close>

definition sum_step :: "real \<Rightarrow> nat \<Rightarrow> real \<Rightarrow> point_state \<Rightarrow> point_state" where
  "sum_step dbmin mapno f_in s =
     (let s0 = (if mapno = 0 then s\<lparr>sumpower := 0\<rparr> else s)
      in if f_in > dbmin then s0\<lparr>sumpower := sumpower s0 + 10 powr (f_in / 10)\<rparr> else s0)"

text \<open>
  Lines 847-860: \<^verbatim>\<open>for (i = count_mem; i > 0; i--)\<close> swaps the entries \<open>i\<close> and
  \<open>i - 1\<close> of both arrays while \<^verbatim>\<open>arr_power[i] > arr_power[i-1]\<close>, and breaks at the
  first pair in order. The first argument is the loop variable \<open>i\<close>.
\<close>

fun bubble :: "nat \<Rightarrow> real list \<Rightarrow> nat list \<Rightarrow> real list \<times> nat list" where
  "bubble 0 p x = (p, x)"
| "bubble (Suc j) p x =
     (if p ! Suc j > p ! j
      then bubble j (p[Suc j := p ! j, j := p ! Suc j]) (x[Suc j := x ! j, j := x ! Suc j])
      else (p, x))"

text \<open>Lines 845-861: the sort is skipped for the first map (\<^verbatim>\<open>if (map)\<close>).\<close>

definition sort_cell :: "nat \<Rightarrow> point_state \<Rightarrow> point_state" where
  "sort_cell mapno s =
     (if mapno \<noteq> 0
      then (case bubble (count_mem s) (pw s) (ix s) of (p, x) \<Rightarrow> s\<lparr>pw := p, ix := x\<rparr>)
      else s)"

text \<open>
  Lines 828-861. While \<^verbatim>\<open>map < cell_num\<close> the reading is stored in the slot \<open>map\<close> and
  \<^verbatim>\<open>count_mem\<close> becomes \<open>map\<close>. Afterwards a reading below the last slot is skipped
  (\<^verbatim>\<open>continue\<close>, so the sort does not run), and any other reading overwrites the last
  slot; then the sort runs from \<^verbatim>\<open>count_mem\<close>.
\<close>

definition rank_step :: "nat \<Rightarrow> nat \<Rightarrow> real \<Rightarrow> point_state \<Rightarrow> point_state" where
  "rank_step cell_num mapno f_in s =
     (if mapno < cell_num
      then sort_cell mapno
             (s\<lparr>pw := (pw s)[mapno := f_in], ix := (ix s)[mapno := mapno], count_mem := mapno\<rparr>)
      else if f_in < pw s ! (cell_num - 1) then s
      else sort_cell mapno
             (s\<lparr>pw := (pw s)[cell_num - 1 := f_in], ix := (ix s)[cell_num - 1 := mapno]\<rparr>))"

text \<open>Lines 816-861: the loop body at one point, for the reading \<open>f_in\<close> of map \<open>mapno\<close>.\<close>

definition ingest_cell :: "real \<Rightarrow> nat \<Rightarrow> nat \<Rightarrow> real \<Rightarrow> point_state \<Rightarrow> point_state" where
  "ingest_cell dbmin cell_num mapno f_in s =
     rank_step cell_num mapno f_in (sum_step dbmin mapno f_in s)"

text \<open>
  The map loop (line 793) seen from one point: the readings \<open>fs\<close> of the maps
  \<open>mapno, mapno + 1, ...\<close> at this point are folded in, in the order of the maps.
  The loop of the source runs over all points inside one map; the body at a point
  touches no other point, and \<^verbatim>\<open>count_mem\<close> is set to the same value \<open>map\<close> by every
  point of a map below \<^verbatim>\<open>cell_num\<close> and by none afterwards, so that the value a point
  finds in it is the one its own previous step left.
\<close>

fun ingest_from :: "real \<Rightarrow> nat \<Rightarrow> nat \<Rightarrow> real list \<Rightarrow> point_state \<Rightarrow> point_state" where
  "ingest_from dbmin cell_num mapno [] s = s"
| "ingest_from dbmin cell_num mapno (f_in # fs) s =
     ingest_from dbmin cell_num (Suc mapno) fs (ingest_cell dbmin cell_num mapno f_in s)"

text \<open>Lines 766-786: the arrays are zeroed (\<^verbatim>\<open>G_calloc\<close>, \<^verbatim>\<open>memset\<close>), \<^verbatim>\<open>count_mem = 0\<close>.\<close>

definition init_point :: "nat \<Rightarrow> point_state" where
  "init_point cell_num =
     \<lparr>pw = replicate cell_num 0, ix = replicate cell_num 0, sumpower = 0, count_mem = 0\<rparr>"

text \<open>
  The state of a point after the maps with the readings \<open>fs\<close>. With \<^verbatim>\<open>cell_num\<close> zero
  (or negative) the source indexes \<^verbatim>\<open>arr_power[cell_num-1]\<close> outside the array; the
  model has no result there.
\<close>

definition run_point :: "real \<Rightarrow> nat \<Rightarrow> real list \<Rightarrow> point_state option" where
  "run_point dbmin cell_num fs =
     (if cell_num = 0 then None
      else Some (ingest_from dbmin cell_num 0 fs (init_point cell_num)))"

text \<open>
  Lines 879-891: the sum in mW becomes dBm, \<^verbatim>\<open>DB_MIN_VAL\<close> for a zero sum and for a
  result below it.
\<close>

definition finalize_sum :: "real \<Rightarrow> real \<Rightarrow> real" where
  "finalize_sum dbmin s =
     (if s = 0 then dbmin
      else (let t = 10 * log 10 s in if t < dbmin then dbmin else t))"

subsection \<open>The outside world: events, failures, responses\<close>

text \<open>
  \<^verbatim>\<open>G_fatal_error\<close> prints its message and ends the program: \<open>Fatal\<close>. Where the
  source would index outside an array the model stops with \<open>Undefined_behaviour\<close>.
\<close>

datatype failure = Fatal string | Undefined_behaviour

text \<open>A column of the data table: name, SQL type and length (lines 202-246).\<close>

datatype column = Column string string nat

text \<open>
  The calls the program makes to the database driver, the C library and the raster
  library, in the order it makes them. \<open>Execute\<close> is \<^verbatim>\<open>db_execute_immediate\<close> with the
  text of the statement, \<open>WriteLine\<close> is \<^verbatim>\<open>fprintf(csv_fp, "%s\n", ...)\<close> with the
  line, \<open>MkTemp\<close> is \<^verbatim>\<open>mkstemp\<close> followed by \<^verbatim>\<open>fchmod\<close> and \<^verbatim>\<open>fdopen\<close>, \<open>ProbeFile\<close> is
  \<^verbatim>\<open>fopen(name, "r")\<close>, \<open>OpenFile\<close> is \<^verbatim>\<open>fopen(name, "wb+")\<close>, \<open>RewindFile\<close> is
  \<^verbatim>\<open>fflush\<close> and \<^verbatim>\<open>rewind\<close>, \<open>CloseDriver\<close> is \<^verbatim>\<open>db_close_database\<close> and
  \<^verbatim>\<open>db_shutdown_driver\<close>, \<open>PutRow\<close> is \<^verbatim>\<open>Rast_put_row\<close> with the row (\<open>None\<close> for a
  null cell), \<open>Message\<close> is \<^verbatim>\<open>G_message\<close>. Progress and debug output
  (\<^verbatim>\<open>G_percent\<close>, \<^verbatim>\<open>G_debug\<close>) is left out.
\<close>

datatype io =
    Message string
  | ReadFile string
  | TableExists string string string
  | DeleteTable string string string
  | SetConnection string string
  | StartDriver string string
  | CloseDriver
  | Execute string
  | CreateTable string "column list"
  | BeginTransaction
  | CommitTransaction
  | MkTemp string
  | ProbeFile string
  | OpenFile string
  | WriteLine string
  | RewindFile
  | CloseFile
  | OpenRaster string
  | ReadRaster string
  | PutRow "real option list"
  | CloseRaster
  | WriteHistory string

text \<open>
  A run of a piece of the program: the events it caused and either the failure that
  ended it or its result.
\<close>

type_synonym 'a run = "io list \<times> (failure + 'a)"

definition ret :: "'a \<Rightarrow> 'a run" where
  "ret x = ([], Inr x)"

definition emit :: "io \<Rightarrow> unit run" where
  "emit ev = ([ev], Inr ())"

definition fatal :: "string \<Rightarrow> 'a run" where
  "fatal msg = ([], Inl (Fatal msg))"

definition undefined_behaviour :: "'a run" where
  "undefined_behaviour = ([], Inl Undefined_behaviour)"

text \<open>Sequencing: what follows a failure does not run.\<close>

definition seq :: "'a run \<Rightarrow> ('a \<Rightarrow> 'b run) \<Rightarrow> 'b run" where
  "seq r f =
     (case r of
        (t, Inl err) \<Rightarrow> (t, Inl err)
      | (t, Inr x) \<Rightarrow> (case f x of (t', y) \<Rightarrow> (t @ t', y)))"

fun steps :: "unit run list \<Rightarrow> unit run" where
  "steps [] = ret ()"
| "steps (r # rs) = seq r (\<lambda>_. steps rs)"

text \<open>
  What the outside answers. Each field is the outcome of one call of the source:
  \<open>input_ok\<close> of \<^verbatim>\<open>fopen(in_file, "r")\<close>, \<open>table_exists\<close> of \<^verbatim>\<open>db_table_exists\<close>,
  \<open>delete_ok\<close> of \<^verbatim>\<open>db_delete_table\<close>, \<open>create_ok\<close> of \<^verbatim>\<open>db_create_table\<close>,
  \<open>begin_ok\<close> and \<open>commit_ok\<close> of the transaction calls, \<open>exec_ok\<close> of
  \<^verbatim>\<open>db_execute_immediate\<close> on a statement, \<open>file_exists\<close> and \<open>open_ok\<close> of the two
  \<^verbatim>\<open>fopen\<close> calls on the CSV file, \<open>tmp_name\<close> the file name \<^verbatim>\<open>mkstemp\<close> makes,
  \<open>legal_name\<close> of \<^verbatim>\<open>G_legal_filename\<close>, \<open>raster_new_ok\<close> of \<^verbatim>\<open>Rast_open_new\<close>, and
  \<open>read_raster\<close> the cells of an input raster in the current region by
  \<^verbatim>\<open>arr_ix\<close> (\<open>None\<close> when \<^verbatim>\<open>Rast_open_old\<close> fails, a cell \<open>None\<close> when it is null).
  \<open>fmt_f2\<close> is the C library's rendering of a \<^verbatim>\<open>float\<close> by \<^verbatim>\<open>%.2f\<close>.
  \<open>lte_out\<close> stands for \<^verbatim>\<open>PdBm2LteThroughput\<close> of \<^verbatim>\<open>LTE_RaPlaT_Fun.c\<close>, which
  computes \<^verbatim>\<open>sigOut[ij]\<close> from \<^verbatim>\<open>OutputFlag\<close>, \<^verbatim>\<open>sigMax[ij]\<close>, \<^verbatim>\<open>sigSum[ij]\<close> and
  constants and writes to no other array; its arithmetic is not modelled.
\<close>

record env =
  input_ok :: bool
  table_exists :: bool
  delete_ok :: bool
  create_ok :: bool
  begin_ok :: bool
  commit_ok :: bool
  exec_ok :: "string \<Rightarrow> bool"
  file_exists :: bool
  open_ok :: bool
  tmp_name :: string
  legal_name :: bool
  raster_new_ok :: bool
  read_raster :: "string \<Rightarrow> (nat \<Rightarrow> real option) option"
  fmt_f2 :: "real \<Rightarrow> string"
  lte_out :: "char \<Rightarrow> real \<Rightarrow> real \<Rightarrow> real"

subsection \<open>Text\<close>

text \<open>The rendering of \<^verbatim>\<open>%d\<close>.\<close>

definition digit_char :: "nat \<Rightarrow> char" where
  "digit_char n = ''0123456789'' ! n"

fun show_nat :: "nat \<Rightarrow> string" where
  "show_nat n =
     (if n < 10 then [digit_char n] else show_nat (n div 10) @ [digit_char (n mod 10)])"

definition show_int :: "int \<Rightarrow> string" where
  "show_int i = (if i < 0 then CHR ''-'' # show_nat (nat (- i)) else show_nat (nat i))"

text \<open>The rendering of \<^verbatim>\<open>'%s'\<close>: the string between two apostrophes.\<close>

definition quoted :: "string \<Rightarrow> string" where
  "quoted s = CHR 0x27 # s @ [CHR 0x27]"

subsection \<open>fill_database (lines 260-460)\<close>

text \<open>
  The options of the database that \<^verbatim>\<open>main\<close> hands to \<^verbatim>\<open>fill_database\<close> under the
  same names, and the other arguments of \<^verbatim>\<open>fill_database\<close>. \<open>arr_power a ! k ! arr_ix\<close>
  is \<^verbatim>\<open>arr_power[k][arr_ix]\<close>. The argument \<^verbatim>\<open>verbose\<close> only switches the progress
  output and is left out.
\<close>

record db_opts =
  drv_name :: string
  db_name :: string
  tbl_name :: string
  db_perf :: int
  ovr :: bool

record fill_args = db_opts +
  ncols :: nat
  nrows :: nat
  x_start :: int
  y_start :: int
  res :: int
  arr_power :: "real list list"
  arr_index :: "nat list list"
  cell_name :: "string list"
  antenna_id :: "int list"
  model_name :: "string list"
  ncells :: nat
  arr_EcNo :: "real list"

text \<open>
  Lines 376-381: the four fields of the slot \<open>cell\<close> (counted from 1), by
  \<^verbatim>\<open>",'%s',%d,%.2f,'%s'"\<close>.
\<close>

definition cell_fields :: "env \<Rightarrow> fill_args \<Rightarrow> nat \<Rightarrow> nat \<Rightarrow> string" where
  "cell_fields e a arr_ix cell =
     (let arr_ix2 = arr_index a ! (cell - 1) ! arr_ix
      in '','' @ quoted (cell_name a ! arr_ix2) @ '','' @ show_int (antenna_id a ! arr_ix2) @
         '','' @ fmt_f2 e (arr_power a ! (cell - 1) ! arr_ix) @
         '','' @ quoted (model_name a ! arr_ix2))"

text \<open>
  Lines 345, 358 and 373-381: the text of a record up to its last field, that is
  \<^verbatim>\<open>"%d,%d,%d"\<close> of \<open>x\<close>, \<open>y\<close> and \<open>res\<close> and the fields of the slots
  \<open>1, ..., ncells\<close>.
\<close>

definition record_head :: "env \<Rightarrow> fill_args \<Rightarrow> nat \<Rightarrow> nat \<Rightarrow> string" where
  "record_head e a row col =
     (let arr_ix = row * ncols a + col;
          y = y_start a - int row * res a;
          x = x_start a + int col * res a
      in show_int x @ '','' @ show_int y @ '','' @ show_int (res a) @
         concat (map (cell_fields e a arr_ix) [1..<Suc (ncells a)]))"

text \<open>Lines 373-384: the record ends with \<^verbatim>\<open>",%.2f"\<close> of \<^verbatim>\<open>arr_EcNo[arr_ix]\<close>.\<close>

definition record_text :: "env \<Rightarrow> fill_args \<Rightarrow> nat \<Rightarrow> nat \<Rightarrow> string" where
  "record_text e a row col =
     record_head e a row col @ '','' @ fmt_f2 e (arr_EcNo a ! (row * ncols a + col))"

text \<open>
  Lines 356-392, on the pair of the statement buffer \<open>sql\<close> and \<^verbatim>\<open>SQLrowcnt\<close>. A
  point whose strongest power is \<^verbatim>\<open>DB_MIN_VAL\<close> is skipped (\<^verbatim>\<open>SKIPNULL\<close> is 1). In
  the insert mode the record is appended to the statement in parentheses, the first
  one after \<^verbatim>\<open>INSERT INTO ... VALUES\<close>; in the CSV mode it is written as a line.
\<close>

definition add_record ::
  "real \<Rightarrow> env \<Rightarrow> fill_args \<Rightarrow> bool \<Rightarrow> nat \<Rightarrow> nat \<Rightarrow> string \<times> nat \<Rightarrow> (string \<times> nat) run" where
  "add_record dbmin e a csv2db row col st =
     (case st of (sql, SQLrowcnt) \<Rightarrow>
        if arr_power a ! 0 ! (row * ncols a + col) \<noteq> dbmin
        then (if \<not> csv2db
              then ret ((if SQLrowcnt = 0 then ''INSERT INTO '' @ tbl_name a @ '' VALUES (''
                         else sql @ '' ,('') @ record_text e a row col @ '')'',
                        SQLrowcnt + 1)
              else seq (emit (WriteLine (record_text e a row col)))
                     (\<lambda>_. ret (record_text e a row col, SQLrowcnt)))
        else ret (sql, SQLrowcnt))"

text \<open>
  Lines 394-401: in the insert mode a statement that holds records is executed when
  it holds \<^verbatim>\<open>SQLPacketSize\<close> of them or the column is the last of the raster row.
\<close>

definition flush_packet ::
  "env \<Rightarrow> fill_args \<Rightarrow> bool \<Rightarrow> nat \<Rightarrow> nat \<Rightarrow> string \<times> nat \<Rightarrow> (string \<times> nat) run" where
  "flush_packet e a csv2db SQLPacketSize col st =
     (case st of (sql, SQLrowcnt) \<Rightarrow>
        if \<not> csv2db \<and> SQLrowcnt > 0 \<and> (SQLrowcnt = SQLPacketSize \<or> col + 1 = ncols a)
        then seq (emit (Execute sql))
               (\<lambda>_. if exec_ok e sql then ret (sql, 0)
                     else fatal ''Failed writting data in the database! '')
        else ret (sql, SQLrowcnt))"

text \<open>Lines 349-403: the loop over the columns of one raster row.\<close>

fun scan_cols ::
  "real \<Rightarrow> env \<Rightarrow> fill_args \<Rightarrow> bool \<Rightarrow> nat \<Rightarrow> nat \<Rightarrow> nat list \<Rightarrow> string \<times> nat \<Rightarrow> (string \<times> nat) run" where
  "scan_cols dbmin e a csv2db pk row [] st = ret st"
| "scan_cols dbmin e a csv2db pk row (col # cols) st =
     seq (seq (add_record dbmin e a csv2db row col st) (flush_packet e a csv2db pk col))
       (scan_cols dbmin e a csv2db pk row cols)"

text \<open>
  Lines 343-404: the loop over the raster rows. \<^verbatim>\<open>SQLrowcnt\<close> is declared inside the
  loop and starts at 0 in every raster row; the buffer \<open>sql\<close> lives on.
\<close>

fun scan_rows ::
  "real \<Rightarrow> env \<Rightarrow> fill_args \<Rightarrow> bool \<Rightarrow> nat \<Rightarrow> nat list \<Rightarrow> string \<Rightarrow> string run" where
  "scan_rows dbmin e a csv2db pk [] sql = ret sql"
| "scan_rows dbmin e a csv2db pk (row # rows) sql =
     seq (scan_cols dbmin e a csv2db pk row [0..<ncols a] (sql, 0))
       (\<lambda>st. scan_rows dbmin e a csv2db pk rows (fst st))"

text \<open>
  Lines 278-302: \<^verbatim>\<open>csv_only\<close>, the forced \<^verbatim>\<open>db_perf = 1\<close> of the drivers \<^verbatim>\<open>dbf\<close> and
  \<^verbatim>\<open>sqlite\<close>, \<^verbatim>\<open>csv2db\<close> and \<^verbatim>\<open>SQLPacketSize\<close> (not set, and not used, in the CSV
  mode).
\<close>

definition csv_only :: "fill_args \<Rightarrow> bool" where
  "csv_only a \<longleftrightarrow> drv_name a = ''csv''"

definition eff_db_perf :: "fill_args \<Rightarrow> int" where
  "eff_db_perf a =
     (if drv_name a = ''dbf'' \<or> drv_name a = ''sqlite'' then 1 else db_perf a)"

definition csv2db :: "fill_args \<Rightarrow> bool" where
  "csv2db a \<longleftrightarrow>
     (if \<not> csv_only a then \<not> (eff_db_perf a \<ge> 0 \<and> eff_db_perf a < 99) else True)"

definition SQLPacketSize :: "fill_args \<Rightarrow> nat" where
  "SQLPacketSize a =
     (if eff_db_perf a \<ge> 0 \<and> eff_db_perf a < 99 then nat (eff_db_perf a) else 1)"

text \<open>Lines 286-339: the driver is started, then the transaction or the file is opened.\<close>

definition open_sink :: "env \<Rightarrow> fill_args \<Rightarrow> unit run" where
  "open_sink e a =
     steps
      [if \<not> csv_only a then emit (StartDriver (drv_name a) (db_name a)) else ret (),
       if \<not> csv2db a
       then steps [emit BeginTransaction,
                   if begin_ok e then ret () else fatal ''Failed starting transaction! '']
       else if \<not> csv_only a
       then steps [emit (MkTemp (tmp_name e)),
                   emit (Message (''Creating indermediate temporary CSV file '' @
                                  quoted (tmp_name e) @ ''...''))]
       else steps [emit (ProbeFile (tbl_name a)),
                   if file_exists e \<and> \<not> ovr a then fatal ''Output csv file already exists! ''
                   else ret (),
                   emit (OpenFile (tbl_name a)),
                   if open_ok e then ret ()
                   else fatal ''Cannot open output csv file for writing! '']]"

text \<open>
  Lines 424-447: the statement that loads the temporary file, for the drivers
  \<^verbatim>\<open>mysql\<close> and \<^verbatim>\<open>pg\<close>; any other driver is refused here.
\<close>

definition load_statement :: "env \<Rightarrow> fill_args \<Rightarrow> string run" where
  "load_statement e a =
     (if drv_name a = ''mysql''
      then ret (''LOAD DATA LOCAL INFILE '' @ quoted (tmp_name e) @ '' INTO TABLE '' @
                tbl_name a @ '' FIELDS TERMINATED BY '' @ quoted '','' @
                '' ENCLOSED BY '' @ [CHR 0x22, CHR 0x27, CHR 0x22])
      else if drv_name a = ''pg''
      then ret (''COPY '' @ tbl_name a @ '' FROM '' @ quoted (tmp_name e) @
                '' CSV QUOTE '' @ [CHR 0x27, CHR 0x27, CHR 0x27, CHR 0x27])
      else fatal (''dbperf=99 not supported for the database driver '' @
                  quoted (drv_name a) @ '' ! ''))"

text \<open>Lines 406-457: commit, or load the temporary file, and close.\<close>

definition close_sink :: "env \<Rightarrow> fill_args \<Rightarrow> unit run" where
  "close_sink e a =
     steps
      [if \<not> csv2db a
       then steps [emit CommitTransaction,
                   if commit_ok e then ret () else fatal ''Failed commiting transaction! '']
       else steps
             [if \<not> csv_only a
              then steps
                    [emit RewindFile,
                     emit (Message ''Converting intermediate temporary CSV file to data table...''),
                     emit (Message ''... please wait ...''),
                     seq (load_statement e a)
                       (\<lambda>sql. steps [emit (Execute sql),
                                     if exec_ok e sql then ret ()
                                     else fatal ''Converting CSV to data table failed! ''])]
              else ret (),
              emit CloseFile],
       if \<not> csv_only a then emit CloseDriver else ret ()]"

definition fill_database :: "real \<Rightarrow> env \<Rightarrow> fill_args \<Rightarrow> unit run" where
  "fill_database dbmin e a =
     steps
      [open_sink e a,
       seq (scan_rows dbmin e a (csv2db a) (SQLPacketSize a) [0..<nrows a] [])
         (\<lambda>_. ret ()),
       close_sink e a]"

subsection \<open>create_table (lines 135-255)\<close>

text \<open>
  Lines 214-242: the body of the loop over the slots \<open>i = 1, ..., cell_num\<close>, on the
  pair of \<^verbatim>\<open>c_ix\<close> and the columns of the table. The types are the driver's
  \<^verbatim>\<open>DB_SQL_TYPE_INTEGER\<close>, \<^verbatim>\<open>DB_SQL_TYPE_CHARACTER\<close> and \<^verbatim>\<open>DB_SQL_TYPE_REAL\<close>.
\<close>

definition cell_columns :: "nat \<Rightarrow> nat \<times> column list \<Rightarrow> nat \<times> column list" where
  "cell_columns i st =
     (case st of (c_ix, cols) \<Rightarrow>
        (c_ix + 4,
         cols[c_ix := Column (''cell'' @ show_nat i) ''CHARACTER'' 32,
              c_ix + 1 := Column (''id'' @ show_nat i) ''INTEGER'' 6,
              c_ix + 2 := Column (''Pr'' @ show_nat i) ''REAL'' 6,
              c_ix + 3 := Column (''model'' @ show_nat i) ''CHARACTER'' 128]))"

text \<open>
  Lines 144 and 198-246: a table of \<^verbatim>\<open>ncols_tab = 4*cell_num+4\<close> columns is allocated;
  the columns 0 to 2, the columns of the slots from \<^verbatim>\<open>c_ix = 3\<close> on, and the last
  column are set.
\<close>

definition table_columns :: "nat \<Rightarrow> column list" where
  "table_columns cell_num =
     (let ncols_tab = 4 * cell_num + 4;
          cols0 = (replicate ncols_tab (Column [] [] 0))
                    [0 := Column ''x'' ''INTEGER'' 6,
                     1 := Column ''y'' ''INTEGER'' 6,
                     2 := Column ''resolution'' ''INTEGER'' 4];
          cols1 = snd (fold cell_columns [1..<cell_num + 1] (3, cols0))
      in cols1[ncols_tab - 1 := Column ''EcN0'' ''REAL'' 6])"

text \<open>
  \<^verbatim>\<open>create_table\<close>. An existing table is deleted when overwriting is allowed and is
  a fatal error otherwise; for the driver \<^verbatim>\<open>pg\<close> the table is dropped by a statement
  when overwriting is allowed; then the table is created. With a negative
  \<^verbatim>\<open>cell_num\<close> the writes to the columns fall outside the allocated table.
\<close>

definition create_table :: "env \<Rightarrow> string \<Rightarrow> string \<Rightarrow> string \<Rightarrow> int \<Rightarrow> bool \<Rightarrow> unit run" where
  "create_table e drv db tbl cell_num overwrite =
     steps
      [emit (TableExists drv db tbl),
       if table_exists e
       then (if overwrite
             then steps [emit (DeleteTable drv db tbl),
                         if delete_ok e then ret ()
                         else fatal (''Cannot delete/overwrite existing table <'' @ tbl @ ''>'')]
             else fatal (''Table <'' @ tbl @ ''> already exists''))
       else ret (),
       emit (SetConnection drv db),
       emit (StartDriver drv db),
       if drv = ''pg'' \<and> overwrite
       then steps [emit (Message ([CHR 0x0A] @ ''Deleting table <'' @ tbl @ ''> (if exists)'')),
                   emit (Execute (''DROP TABLE IF EXISTS '' @ tbl)),
                   if exec_ok e (''DROP TABLE IF EXISTS '' @ tbl) then ret ()
                   else fatal ''Failed dropping table (PostgreSQL)! '']
       else ret (),
       if cell_num < 0 then undefined_behaviour else ret (),
       emit (CreateTable tbl (table_columns (nat cell_num))),
       if create_ok e then ret () else fatal (''Cannot create table <'' @ tbl @ ''>! ''),
       emit CloseDriver]"

subsection \<open>main (lines 485-1025)\<close>

text \<open>
  The options of \<^verbatim>\<open>main\<close> after \<^verbatim>\<open>G_parser\<close>, under the names of the variables
  that hold them; \<open>ovr\<close> is set from the environment variable
  \<^verbatim>\<open>GRASS_OVERWRITE\<close>. The bandwidth is handed to \<^verbatim>\<open>PdBm2LteThroughput\<close> only and is
  part of \<open>lte_out\<close>.
\<close>

record config = db_opts +
  in_file :: string
  outraster_name :: string
  cell_num :: int
  rx_thresh :: real
  generate :: string
  channel_type :: string

text \<open>
  A line of the \<^verbatim>\<open>cell_input\<close> file as the loop of lines 695-746 stores it:
  \<^verbatim>\<open>cell_name[n]\<close>, \<^verbatim>\<open>antenna_id[n]\<close>, \<^verbatim>\<open>name[n]\<close> (the path-loss raster), \<^verbatim>\<open>Pt[n]\<close>
  and \<^verbatim>\<open>model_name[n]\<close>. The model takes the lines parsed; \<^verbatim>\<open>map_number\<close> is their
  number.
\<close>

datatype cell = Cell (cell_nm: string) (ant_id: int) (raster_nm: string) (tx_power: real)
  (model_nm: string)

text \<open>
  The current region: \<^verbatim>\<open>Rast_window_rows()\<close>, \<^verbatim>\<open>Rast_window_cols()\<close> and the fields of
  \<^verbatim>\<open>window\<close> that \<^verbatim>\<open>main\<close> reads.
\<close>

record region =
  win_rows :: nat
  win_cols :: nat
  west :: real
  north :: real
  ew_res :: real
  ns_res :: real

text \<open>The C function \<^verbatim>\<open>round\<close> (halves away from zero), then the cast to \<^verbatim>\<open>int\<close>.\<close>

definition c_round :: "real \<Rightarrow> int" where
  "c_round x = (if 0 \<le> x then \<lfloor>x + 1 / 2\<rfloor> else \<lceil>x - 1 / 2\<rceil>)"

text \<open>The cast \<^verbatim>\<open>(CELL)\<close> of a \<^verbatim>\<open>float\<close> to \<^verbatim>\<open>int\<close>: towards zero.\<close>

definition c_trunc :: "real \<Rightarrow> int" where
  "c_trunc x = (if 0 \<le> x then \<lfloor>x\<rfloor> else \<lceil>x\<rceil>)"

text \<open>Line 678: \<^verbatim>\<open>if (cell_num > map_number) cell_num = map_number\<close>.\<close>

definition clamp_cell_num :: "int \<Rightarrow> nat \<Rightarrow> int" where
  "clamp_cell_num n map_number = (if n > int map_number then int map_number else n)"

text \<open>
  Lines 661-684: the \<^verbatim>\<open>cell_input\<close> file is opened and its lines are counted; then
  \<^verbatim>\<open>cell_num\<close> is limited to their number, the table is created for a database
  driver, and for the driver \<^verbatim>\<open>none\<close> \<^verbatim>\<open>cell_num\<close> becomes 1. The result is
  \<^verbatim>\<open>cell_num\<close> as the rest of \<^verbatim>\<open>main\<close> uses it.
\<close>

definition main_setup :: "env \<Rightarrow> config \<Rightarrow> cell list \<Rightarrow> int run" where
  "main_setup e c cells =
     seq (steps
           [emit (ReadFile (in_file c)),
            if input_ok e then ret ()
            else fatal (''Unable to open file <'' @ in_file c @ ''>''),
            if cells = [] then fatal ''Empty cell_input file'' else ret (),
            emit (Message (''Processing '' @ show_nat (length cells) @ '' cells...''))])
       (\<lambda>_. if drv_name c \<noteq> ''none'' \<and> drv_name c \<noteq> ''csv''
             then seq (create_table e (drv_name c) (db_name c) (tbl_name c)
                         (clamp_cell_num (cell_num c) (length cells)) (ovr c))
                    (\<lambda>_. ret (clamp_cell_num (cell_num c) (length cells)))
             else if drv_name c = ''none'' then ret 1
             else ret (clamp_cell_num (cell_num c) (length cells)))"

text \<open>Lines 799-800: every path-loss raster is opened in turn.\<close>

fun open_maps :: "env \<Rightarrow> cell list \<Rightarrow> unit run" where
  "open_maps e [] = ret ()"
| "open_maps e (cl # cls) =
     steps [emit (ReadRaster (raster_nm cl)),
            if read_raster e (raster_nm cl) = None
            then fatal (''Unable to open raster map <'' @ raster_nm cl @ ''>'')
            else ret (),
            open_maps e cls]"

text \<open>
  Lines 751-761 and 790-871, the calls: the name of the output raster is checked, the
  output raster is opened, the path-loss rasters are read.
\<close>

definition main_open :: "env \<Rightarrow> config \<Rightarrow> cell list \<Rightarrow> unit run" where
  "main_open e c cells =
     steps
      [if legal_name e then ret ()
       else fatal (''<'' @ outraster_name c @ ''> is an illegal file name''),
       emit (OpenRaster (outraster_name c)),
       if raster_new_ok e then ret ()
       else fatal (''Unable to create raster map <'' @ outraster_name c @ ''>''),
       emit (Message ''Sorting receive power values''),
       open_maps e cells,
       emit (Message ''Finished sorting receive power values'')]"

text \<open>
  Lines 793-869, the values: the readings of the maps at the point \<^verbatim>\<open>arr_ix\<close>, in the
  order of the lines of the \<^verbatim>\<open>cell_input\<close> file, and the state of every point after
  all maps.
\<close>

definition readings_at :: "real \<Rightarrow> env \<Rightarrow> cell list \<Rightarrow> nat \<Rightarrow> real list" where
  "readings_at dbmin e cells arr_ix =
     map (\<lambda>cl. receive_power dbmin (tx_power cl)
                 (case read_raster e (raster_nm cl) of None \<Rightarrow> None | Some r \<Rightarrow> r arr_ix))
       cells"

definition point_states :: "real \<Rightarrow> env \<Rightarrow> cell list \<Rightarrow> nat \<Rightarrow> nat \<Rightarrow> point_state list" where
  "point_states dbmin e cells K num_points =
     map (\<lambda>arr_ix. ingest_from dbmin K 0 (readings_at dbmin e cells arr_ix) (init_point K))
       [0..<num_points]"

text \<open>
  The arrays of \<^verbatim>\<open>main\<close> read off the states of the points: the planes of
  \<^verbatim>\<open>arr_power\<close> and \<^verbatim>\<open>arr_index\<close>, and \<^verbatim>\<open>arr_sumpower\<close> after the conversion of lines
  879-891.
\<close>

definition arr_power_of :: "nat \<Rightarrow> point_state list \<Rightarrow> real list list" where
  "arr_power_of K sts = map (\<lambda>k. map (\<lambda>s. pw s ! k) sts) [0..<K]"

definition arr_index_of :: "nat \<Rightarrow> point_state list \<Rightarrow> nat list list" where
  "arr_index_of K sts = map (\<lambda>k. map (\<lambda>s. ix s ! k) sts) [0..<K]"

definition arr_sumpower_of :: "real \<Rightarrow> point_state list \<Rightarrow> real list" where
  "arr_sumpower_of dbmin sts = map (\<lambda>s. finalize_sum dbmin (sumpower s)) sts"

text \<open>
  \<^verbatim>\<open>strstr(haystack, needle)\<close>: the offset of the first occurrence of the needle, if
  there is one.
\<close>

fun starts_with :: "string \<Rightarrow> string \<Rightarrow> bool" where
  "starts_with h [] = True"
| "starts_with [] (c # n) = False"
| "starts_with (a # h) (c # n) = (a = c \<and> starts_with h n)"

fun strstr :: "string \<Rightarrow> string \<Rightarrow> nat option" where
  "strstr [] n = (if n = [] then Some 0 else None)"
| "strstr (a # h) n =
     (if starts_with (a # h) n then Some 0 else map_option Suc (strstr h n))"

text \<open>
  Lines 465-476: the string occurs in the list, and its first occurrence is bounded
  on both sides by an end of the list, a space or a comma.
\<close>

definition str_in_strlist :: "string \<Rightarrow> string \<Rightarrow> bool" where
  "str_in_strlist strlist str =
     (case strstr strlist str of
        None \<Rightarrow> False
      | Some k \<Rightarrow>
          (k = 0 \<or> strlist ! (k - 1) = CHR '' '' \<or> strlist ! (k - 1) = CHR '','') \<and>
          (k + length str = length strlist \<or> strlist ! (k + length str) = CHR '' '' \<or>
           strlist ! (k + length str) = CHR '',''))"

definition GENERATE_LTE :: string where
  "GENERATE_LTE =
     ''lte-rssi,lte-rsrp,lte-rsrq,lte-cinr,lte-maxspecteff,lte-maxthrput,lte-interfere''"

text \<open>Lines 915-923: the output flag of an LTE selection.\<close>

definition output_flag :: "string \<Rightarrow> char option" where
  "output_flag g =
     (if g = ''lte-rsrp'' then Some CHR ''p''
      else if g = ''lte-rssi'' then Some CHR ''r''
      else if g = ''lte-rsrq'' then Some CHR ''q''
      else if g = ''lte-cinr'' then Some CHR ''c''
      else if g = ''lte-maxspecteff'' then Some CHR ''s''
      else if g = ''lte-maxthrput'' then Some CHR ''t''
      else if g = ''lte-interfere'' then Some CHR ''i''
      else None)"

text \<open>
  Lines 894-934: the array behind the output raster (\<^verbatim>\<open>out_raster\<close> or
  \<^verbatim>\<open>out_raster_int\<close>) and \<^verbatim>\<open>coverage_f\<close>. For an LTE selection the array is filled
  by \<^verbatim>\<open>PdBm2LteThroughput\<close> from \<^verbatim>\<open>arr_power[0]\<close> and \<^verbatim>\<open>arr_sumpower\<close>.
\<close>

datatype out_raster = OutFloat "real list" | OutInt "nat list"

definition select_output ::
  "env \<Rightarrow> config \<Rightarrow> real list list \<Rightarrow> nat list list \<Rightarrow> real list \<Rightarrow> (out_raster \<times> bool) run" where
  "select_output e c P I S =
     (if strstr ''rss-max'' (generate c) \<noteq> None then ret (OutFloat (P ! 0), False)
      else if strstr ''coverage'' (generate c) \<noteq> None then ret (OutFloat (P ! 0), True)
      else if strstr ''rss-sum'' (generate c) \<noteq> None then ret (OutFloat S, False)
      else if strstr ''rss-maxix'' (generate c) \<noteq> None then ret (OutInt (I ! 0), False)
      else if str_in_strlist GENERATE_LTE (generate c)
      then (if channel_type c \<noteq> ''gaussian'' then fatal ''Wrong ChanType (internal error)''
            else (case output_flag (generate c) of
                    None \<Rightarrow> fatal ''Wrong OutpuFlag (internal error)''
                  | Some flag \<Rightarrow>
                      ret (OutFloat (map (\<lambda>(sigMax, sigSum). lte_out e flag sigMax sigSum)
                                       (zip (P ! 0) S)), False)))
      else fatal (quoted ''Generate'' @ '' type not supported <'' @ generate c @
                  ''> (internal error)''))"

text \<open>
  Lines 947-957: the cell of the output raster at \<^verbatim>\<open>arr_ix\<close>. The value is cast to
  \<^verbatim>\<open>CELL\<close>; it is null when it is \<^verbatim>\<open>DB_MIN_VAL\<close> or lower, and null when the strongest
  power of the point is not above \<^verbatim>\<open>rx_thresh\<close>; otherwise the coverage selection
  gives 1.
\<close>

definition out_cell :: "real \<Rightarrow> config \<Rightarrow> out_raster \<Rightarrow> bool \<Rightarrow> real list \<Rightarrow> nat \<Rightarrow> real option" where
  "out_cell dbmin c out coverage_f P0 arr_ix =
     (let f_out = (case out of OutFloat r \<Rightarrow> real_of_int (c_trunc (r ! arr_ix))
                             | OutInt r \<Rightarrow> real (r ! arr_ix));
          f_null = (if f_out \<le> dbmin then None else Some f_out)
      in if P0 ! arr_ix \<le> rx_thresh c then None
         else if coverage_f then Some 1 else f_null)"

text \<open>Line 945: \<^verbatim>\<open>arr_EcNo[arr_ix] = arr_power[0][arr_ix] - arr_sumpower[arr_ix]\<close>.\<close>

definition ecno_of :: "real list list \<Rightarrow> real list \<Rightarrow> nat \<Rightarrow> real list" where
  "ecno_of P S num_points = map (\<lambda>arr_ix. P ! 0 ! arr_ix - S ! arr_ix) [0..<num_points]"

text \<open>
  Lines 893-966: the selection, then the rows of the output raster are written and
  the raster is closed. The result is \<^verbatim>\<open>arr_EcNo\<close>.
\<close>

definition main_output ::
  "real \<Rightarrow> env \<Rightarrow> config \<Rightarrow> region \<Rightarrow> real list list \<Rightarrow> nat list list \<Rightarrow> real list \<Rightarrow> real list run" where
  "main_output dbmin e c w P I S =
     seq (select_output e c P I S)
       (\<lambda>sel. seq (steps
                    (map (\<lambda>row. emit (PutRow (map (\<lambda>col. out_cell dbmin c (fst sel) (snd sel) (P ! 0)
                                                         (row * win_cols w + col))
                                               [0..<win_cols w])))
                       [0..<win_rows w] @
                     [emit CloseRaster]))
               (\<lambda>_. ret (ecno_of P S (win_rows w * win_cols w))))"

text \<open>Lines 973-975 and 982-983: the arguments of the call of \<^verbatim>\<open>fill_database\<close>.\<close>

definition persist_args ::
  "config \<Rightarrow> region \<Rightarrow> cell list \<Rightarrow> nat \<Rightarrow> real list list \<Rightarrow> nat list list \<Rightarrow> real list \<Rightarrow> fill_args" where
  "persist_args c w cells K P I ecno =
     \<lparr>drv_name = drv_name c, db_name = db_name c, tbl_name = tbl_name c,
      db_perf = db_perf c, ovr = ovr c,
      ncols = win_cols w, nrows = win_rows w,
      x_start = c_round (west w + ew_res w / 2),
      y_start = c_round (north w - ns_res w / 2),
      res = c_round (ew_res w),
      arr_power = P, arr_index = I,
      cell_name = map cell_nm cells, antenna_id = map ant_id cells,
      model_name = map model_nm cells,
      ncells = K, arr_EcNo = ecno\<rparr>"

text \<open>Lines 971-998: nothing is written for the driver \<^verbatim>\<open>none\<close>.\<close>

definition main_persist ::
  "real \<Rightarrow> env \<Rightarrow> config \<Rightarrow> region \<Rightarrow> cell list \<Rightarrow> nat \<Rightarrow> real list list \<Rightarrow> nat list list \<Rightarrow>
   real list \<Rightarrow> unit run" where
  "main_persist dbmin e c w cells K P I ecno =
     (if drv_name c \<noteq> ''none''
      then (if drv_name c \<noteq> ''csv''
            then steps
                  [emit (Message (''Writing MaxPower data in table '' @ quoted (tbl_name c) @ ''...'')),
                   fill_database dbmin e (persist_args c w cells K P I ecno),
                   emit (Message (''Finished writing MaxPower data in table '' @
                                  quoted (tbl_name c) @ ''...''))]
            else steps
                  [emit (Message (''Writing MaxPower data in csv file '' @ quoted (tbl_name c) @ ''...'')),
                   fill_database dbmin e (persist_args c w cells K P I ecno),
                   emit (Message (''Finished writing MaxPower data in csv file '' @
                                  quoted (tbl_name c) @ ''...''))])
      else ret ())"

text \<open>
  The arrays \<^verbatim>\<open>arr_power\<close>, \<^verbatim>\<open>arr_index\<close> and \<^verbatim>\<open>arr_sumpower\<close> (in dBm) of \<^verbatim>\<open>main\<close>
  after line 891, for \<open>K\<close> slots.
\<close>

definition final_power :: "real \<Rightarrow> env \<Rightarrow> region \<Rightarrow> cell list \<Rightarrow> nat \<Rightarrow> real list list" where
  "final_power dbmin e w cells K =
     arr_power_of K (point_states dbmin e cells K (win_rows w * win_cols w))"

definition final_index :: "real \<Rightarrow> env \<Rightarrow> region \<Rightarrow> cell list \<Rightarrow> nat \<Rightarrow> nat list list" where
  "final_index dbmin e w cells K =
     arr_index_of K (point_states dbmin e cells K (win_rows w * win_cols w))"

definition final_sum :: "real \<Rightarrow> env \<Rightarrow> region \<Rightarrow> cell list \<Rightarrow> nat \<Rightarrow> real list" where
  "final_sum dbmin e w cells K =
     arr_sumpower_of dbmin (point_states dbmin e cells K (win_rows w * win_cols w))"

text \<open>
  Lines 893-1022: the output raster, the data table or file, and the history of the
  output raster.
\<close>

definition main_tail :: "real \<Rightarrow> env \<Rightarrow> config \<Rightarrow> region \<Rightarrow> cell list \<Rightarrow> nat \<Rightarrow> unit run" where
  "main_tail dbmin e c w cells K =
     seq (main_output dbmin e c w (final_power dbmin e w cells K) (final_index dbmin e w cells K)
            (final_sum dbmin e w cells K))
       (\<lambda>ecno. steps [main_persist dbmin e c w cells K (final_power dbmin e w cells K)
                        (final_index dbmin e w cells K) ecno,
                      emit (WriteHistory (outraster_name c))])"

text \<open>
  \<^verbatim>\<open>main\<close> from line 661 on. With \<^verbatim>\<open>cell_num\<close> below 1 the ranking would index
  outside the arrays.
\<close>

definition main_model :: "real \<Rightarrow> env \<Rightarrow> config \<Rightarrow> region \<Rightarrow> cell list \<Rightarrow> unit run" where
  "main_model dbmin e c w cells =
     seq (main_setup e c cells)
       (\<lambda>n. if n < 1 then undefined_behaviour
            else seq (main_open e c cells) (\<lambda>_. main_tail dbmin e c w cells (nat n)))"

subsection \<open>Notions used in the proofs\<close>

text \<open>
  The position a new value \<open>v\<close> reaches when it is bubbled up from behind the list
  \<open>A\<close>: it passes the entries at the end of \<open>A\<close> that are below it.
\<close>

definition slot_of :: "real \<Rightarrow> real list \<Rightarrow> nat" where
  "slot_of v A = length A - length (takeWhile (\<lambda>y. y < v) (rev A))"

text \<open>
  The invariant of the map loop at one point, after the readings \<open>fs\<close>: both columns
  have \<open>K\<close> slots, \<^verbatim>\<open>count_mem\<close> is the last slot written, the slots written so far
  are in descending order, each holds a reading together with the index of its map,
  the number of slots above \<open>d\<close> is as large as \<open>K\<close> and the readings allow, and
  until the column is full it holds every map seen.
\<close>

definition rank_inv :: "real \<Rightarrow> nat \<Rightarrow> real list \<Rightarrow> point_state \<Rightarrow> bool" where
  "rank_inv d K fs s \<longleftrightarrow>
     length (pw s) = K \<and> length (ix s) = K \<and>
     (fs \<noteq> [] \<longrightarrow> count_mem s = min (length fs - 1) (K - 1)) \<and>
     sorted_wrt (\<ge>) (take (length fs) (pw s)) \<and>
     (\<forall>(p, i) \<in> set (zip (take (length fs) (pw s)) (take (length fs) (ix s))).
         i < length fs \<and> p = fs ! i) \<and>
     length (filter (\<lambda>y. d < y) (take (length fs) (pw s))) =
       min K (length (filter (\<lambda>y. d < y) fs)) \<and>
     (length fs \<le> K \<longrightarrow> set (take (length fs) (ix s)) = {..<length fs})"

text \<open>
  The columns of a raster row whose points are written: those whose strongest power
  is not \<^verbatim>\<open>DB_MIN_VAL\<close> (line 356); and the records of a raster row.
\<close>

definition eligible :: "real \<Rightarrow> fill_args \<Rightarrow> nat \<Rightarrow> nat list" where
  "eligible dbmin a row =
     filter (\<lambda>col. arr_power a ! 0 ! (row * ncols a + col) \<noteq> dbmin) [0..<ncols a]"

definition row_records :: "real \<Rightarrow> env \<Rightarrow> fill_args \<Rightarrow> nat \<Rightarrow> string list" where
  "row_records dbmin e a row = map (record_text e a row) (eligible dbmin a row)"

text \<open>The multi-row \<^verbatim>\<open>INSERT\<close> statement that carries the records \<open>rs\<close>.\<close>

fun insert_sql :: "string \<Rightarrow> string list \<Rightarrow> string" where
  "insert_sql tbl [] = []"
| "insert_sql tbl (r # rs) =
     foldl (\<lambda>s r'. s @ '' ,('' @ r' @ '')'') (''INSERT INTO '' @ tbl @ '' VALUES ('' @ r @ '')'') rs"

text \<open>A list cut into pieces of \<open>n\<close> elements, the last piece holding the rest.\<close>

function chunks :: "nat \<Rightarrow> 'a list \<Rightarrow> 'a list list" where
  "chunks n xs =
     (if xs = [] then [] else if n = 0 then [xs] else take n xs # chunks n (drop n xs))"
  by pat_completeness auto
termination
  by (relation "measure (\<lambda>(n, xs). length xs)") auto

text \<open>The statements executed and the lines written, in a list of events.\<close>

fun statements_of :: "io list \<Rightarrow> string list" where
  "statements_of [] = []"
| "statements_of (Execute q # evs) = q # statements_of evs"
| "statements_of (ev # evs) = statements_of evs"

fun lines_of :: "io list \<Rightarrow> string list" where
  "lines_of [] = []"
| "lines_of (WriteLine l # evs) = l # lines_of evs"
| "lines_of (ev # evs) = lines_of evs"

text \<open>The tables created and the raster rows written, in a list of events.\<close>

fun tables_of :: "io list \<Rightarrow> (string \<times> column list) list" where
  "tables_of [] = []"
| "tables_of (CreateTable tbl cols # evs) = (tbl, cols) # tables_of evs"
| "tables_of (ev # evs) = tables_of evs"

fun rows_of :: "io list \<Rightarrow> real option list list" where
  "rows_of [] = []"
| "rows_of (PutRow r # evs) = r # rows_of evs"
| "rows_of (ev # evs) = rows_of evs"

text \<open>The message of line 444 for the driver \<open>drv\<close>.\<close>

definition unsupported_msg :: "string \<Rightarrow> string" where
  "unsupported_msg drv =
     ''dbperf=99 not supported for the database driver '' @ quoted drv @ '' ! ''"

text \<open>The records of all raster rows, in the order of the scan.\<close>

definition all_records :: "real \<Rightarrow> env \<Rightarrow> fill_args \<Rightarrow> string list" where
  "all_records dbmin e a = concat (map (row_records dbmin e a) [0..<nrows a])"

subsection \<open>A small example\<close>

text \<open>
  An outside in which every call succeeds; \<open>demo_fmt\<close> renders a whole number as
  \<^verbatim>\<open>%.2f\<close> does. A raster of two rows and one column with one slot per point, on the
  driver \<^verbatim>\<open>mysql\<close> with two records per statement.
\<close>

definition demo_fmt :: "real \<Rightarrow> string" where
  "demo_fmt r = show_int \<lfloor>r\<rfloor> @ ''.00''"

definition demo_env :: env where
  "demo_env =
     \<lparr>input_ok = True, table_exists = False, delete_ok = True, create_ok = True,
      begin_ok = True, commit_ok = True, exec_ok = (\<lambda>q. True),
      file_exists = False, open_ok = True, tmp_name = ''/tmp/fileAb12Cd'',
      legal_name = True, raster_new_ok = True,
      read_raster = (\<lambda>name. if name = ''lossA'' then Some (\<lambda>arr_ix. Some (if arr_ix = 0 then 110 else 130))
                            else None),
      fmt_f2 = demo_fmt, lte_out = (\<lambda>flag sigMax sigSum. sigMax)\<rparr>"

definition demo_args :: fill_args where
  "demo_args =
     \<lparr>drv_name = ''mysql'', db_name = ''raplat'', tbl_name = ''maxpower'', db_perf = 2,
      ovr = False, ncols = 1, nrows = 2, x_start = 100, y_start = 200, res = 25,
      arr_power = [[-80, -100]], arr_index = [[0, 0]], cell_name = [''A''],
      antenna_id = [7], model_name = [''hata''], ncells = 1, arr_EcNo = [0, 0]\<rparr>"

text \<open>
  A run of \<^verbatim>\<open>main\<close> on this outside: one cell with 30 dBm transmit power whose
  path-loss raster \<^verbatim>\<open>lossA\<close> holds 110 dB and 130 dB, a region of two rows and one
  column, five slots asked for, the receive threshold at -90 dBm, the CSV file as
  output.
\<close>

definition demo_cells :: "cell list" where
  "demo_cells = [Cell ''A'' 7 ''lossA'' 30 ''hata'']"

definition demo_region :: region where
  "demo_region =
     \<lparr>win_rows = 2, win_cols = 1, west = 175 / 2, north = 425 / 2, ew_res = 25, ns_res = 25\<rparr>"

definition demo_cfg :: config where
  "demo_cfg =
     \<lparr>drv_name = ''csv'', db_name = ''raplat'', tbl_name = ''maxpower'', db_perf = 20,
      ovr = False, in_file = ''cells.txt'', outraster_name = ''best'', cell_num = 5,
      rx_thresh = -90, generate = ''rss-max'', channel_type = ''gaussian''\<rparr>"



text \<open>
  The selections of the output that lines 894-934 accept: one of the four names
  occurs in \<^verbatim>\<open>generate\<close> as \<^verbatim>\<open>strstr\<close> finds it, or \<^verbatim>\<open>generate\<close> is one of
  the LTE selections on the channel type \<^verbatim>\<open>gaussian\<close>.
\<close>

definition selection_ok :: "config \<Rightarrow> bool" where
  "selection_ok c \<longleftrightarrow>
     strstr ''rss-max'' (generate c) \<noteq> None \<or> strstr ''coverage'' (generate c) \<noteq> None \<or>
     strstr ''rss-sum'' (generate c) \<noteq> None \<or> strstr ''rss-maxix'' (generate c) \<noteq> None \<or>
     (str_in_strlist GENERATE_LTE (generate c) \<and> channel_type c = ''gaussian'' \<and>
      output_flag (generate c) \<noteq> None)"

section \<open>Proofs\<close>

subsection \<open>The sort loop and the invariant of the ranking\<close>

text \<open>
  The sort loop, started at the slot of a new value \<open>v\<close> that stands behind the
  entries \<open>A\<close>, moves \<open>v\<close> to the position \<open>slot_of v A\<close> and shifts the entries it
  passed by one slot; the index column follows.
\<close>

lemma bubble_append:
  "length A = j \<Longrightarrow> length X = j \<Longrightarrow>
   bubble j (A @ v # R) (X @ m # S) =
     (let n = length (takeWhile (\<lambda>y. y < v) (rev A)) in
        (take (j - n) A @ v # drop (j - n) A @ R, take (j - n) X @ m # drop (j - n) X @ S))"
proof (induction j arbitrary: A X R S)
  case 0
  then show ?case by simp
next
  case (Suc j)
  then obtain A' a where A: "A = A' @ [a]" "length A' = j"
    by (metis length_Suc_conv_rev)
  from Suc obtain X' b where X: "X = X' @ [b]" "length X' = j"
    by (metis length_Suc_conv_rev)
  show ?case
  proof (cases "a < v")
    case True
    have "bubble (Suc j) (A @ v # R) (X @ m # S) = bubble j (A' @ v # a # R) (X' @ m # b # S)"
      using A X True by (simp add: nth_append list_update_append)
    also have "\<dots> = (let n = length (takeWhile (\<lambda>y. y < v) (rev A')) in
        (take (j - n) A' @ v # drop (j - n) A' @ a # R, take (j - n) X' @ m # drop (j - n) X' @ b # S))"
      using Suc.IH[OF A(2) X(2)] by simp
    finally show ?thesis using A X True by (simp add: Let_def)
  next
    case False
    then show ?thesis using A X by (simp add: nth_append)
  qed
qed

lemma slot_of_le: "slot_of v A \<le> length A"
  by (simp add: slot_of_def)

lemma slot_of_sorted:
  "sorted_wrt (\<ge>) A \<Longrightarrow>
     take (slot_of v A) A = filter (\<lambda>y. v \<le> y) A \<and> drop (slot_of v A) A = filter (\<lambda>y. y < v) A"
proof (induction A rule: rev_induct)
  case Nil
  then show ?case by (simp add: slot_of_def)
next
  case (snoc a A)
  then have sA: "sorted_wrt (\<ge>) A" and ge: "\<forall>y\<in>set A. a \<le> y"
    by (auto simp: sorted_wrt_append)
  show ?case
  proof (cases "a < v")
    case True
    then have "slot_of v (A @ [a]) = slot_of v A"
      by (simp add: slot_of_def)
    then show ?thesis using snoc.IH[OF sA] True slot_of_le[of v A] by simp
  next
    case False
    then have s: "slot_of v (A @ [a]) = Suc (length A)"
      by (simp add: slot_of_def)
    have "\<forall>y\<in>set A. v \<le> y" using ge False by auto
    then have "filter (\<lambda>y. v \<le> y) A = A" "filter (\<lambda>y. y < v) A = []"
      by (auto simp: filter_empty_conv)
    then show ?thesis using s False by simp
  qed
qed

lemma rank_step_placed:
  assumes K: "0 < K" and lp: "length (pw s) = K" and lx: "length (ix s) = K"
    and full: "K \<le> mapno \<Longrightarrow> count_mem s = K - 1 \<and> \<not> v < pw s ! (K - 1)"
  shows "rank_step K mapno v s =
     (let c = min mapno (K - 1); A = take c (pw s); X = take c (ix s); a = slot_of v A in
        s\<lparr>pw := take a A @ v # drop a A @ drop (Suc c) (pw s),
          ix := take a X @ mapno # drop a X @ drop (Suc c) (ix s),
          count_mem := c\<rparr>)"
proof -
  define c where "c = min mapno (K - 1)"
  have c: "c < K" using K by (simp add: c_def)
  have up: "(pw s)[c := v] = take c (pw s) @ v # drop (Suc c) (pw s)"
    using c lp by (simp add: upd_conv_take_nth_drop)
  have ux: "(ix s)[c := mapno] = take c (ix s) @ mapno # drop (Suc c) (ix s)"
    using c lx by (simp add: upd_conv_take_nth_drop)
  have la: "length (take c (pw s)) = c" "length (take c (ix s)) = c"
    using c lp lx by simp_all
  have bub: "bubble c ((pw s)[c := v]) ((ix s)[c := mapno]) =
      (take (slot_of v (take c (pw s))) (take c (pw s)) @ v # drop (slot_of v (take c (pw s))) (take c (pw s)) @ drop (Suc c) (pw s),
       take (slot_of v (take c (pw s))) (take c (ix s)) @ mapno # drop (slot_of v (take c (pw s))) (take c (ix s)) @ drop (Suc c) (ix s))"
    unfolding up ux using bubble_append[OF la, of v "drop (Suc c) (pw s)" mapno "drop (Suc c) (ix s)"] la
    by (simp add: slot_of_def Let_def)
  show ?thesis
  proof (cases "mapno < K")
    case True
    then have cm: "c = mapno" by (simp add: c_def)
    show ?thesis
    proof (cases "mapno = 0")
      case True
      then show ?thesis using K lp lx
        by (simp add: rank_step_def sort_cell_def slot_of_def Let_def upd_conv_take_nth_drop)
    next
      case False
      then show ?thesis using True bub cm
        by (simp add: rank_step_def sort_cell_def Let_def c_def[symmetric])
    qed
  next
    case False
    then have cm: "c = K - 1" and m0: "mapno \<noteq> 0" using K by (auto simp: c_def)
    from False full have f: "count_mem s = K - 1" "\<not> v < pw s ! (K - 1)" by auto
    show ?thesis using False f m0 bub cm
      by (simp add: rank_step_def sort_cell_def Let_def c_def[symmetric])
  qed
qed


lemma sum_step_rank [simp]:
  "pw (sum_step d m v s) = pw s" "ix (sum_step d m v s) = ix s"
  "count_mem (sum_step d m v s) = count_mem s"
  by (simp_all add: sum_step_def Let_def)

lemma placed_sorted:
  assumes "sorted_wrt (\<ge>) A"
  shows "sorted_wrt (\<ge>) (take (slot_of v A) A @ v # drop (slot_of v A) A)"
proof -
  have "sorted_wrt (\<ge>) (filter (\<lambda>y. v \<le> y) A @ v # filter (\<lambda>y. y < v) A)"
    using assms by (auto simp: sorted_wrt_append sorted_wrt_filter)
  then show ?thesis using slot_of_sorted[OF assms, of v] by simp
qed

lemma placed_zip:
  assumes "length A = length X"
  shows "set (zip (take a A @ v # drop a A) (take a X @ m # drop a X)) = insert (v, m) (set (zip A X))"
proof -
  have "zip (take a A @ v # drop a A) (take a X @ m # drop a X)
      = take a (zip A X) @ (v, m) # drop a (zip A X)"
    using assms by (simp add: take_zip drop_zip)
  moreover have "set (take a (zip A X)) \<union> set (drop a (zip A X)) = set (zip A X)"
    by (metis append_take_drop_id set_append)
  ultimately show ?thesis by auto
qed

lemma placed_count:
  "length (filter P (take a A @ v # drop a A)) = length (filter P A) + (if P v then 1 else 0)"
proof -
  have "length (filter P A) = length (filter P (take a A)) + length (filter P (drop a A))"
    by (metis append_take_drop_id filter_append length_append)
  then show ?thesis by simp
qed

lemma sorted_desc_all_above:
  assumes "sorted_wrt (\<ge>) (p :: real list)" "p \<noteq> []" "d < last p"
  shows "filter (\<lambda>y. d < y) p = p"
proof -
  have p: "p = butlast p @ [last p]" using assms(2) by simp
  have "sorted_wrt (\<ge>) (butlast p @ [last p])" using assms(1) p by simp
  then have "\<forall>y\<in>set (butlast p). last p \<le> y"
    by (simp add: sorted_wrt_append)
  moreover have "set p = set (butlast p) \<union> {last p}"
    by (subst p) simp
  ultimately have "\<forall>y\<in>set p. d < y" using assms(3) by auto
  then show ?thesis by (simp add: filter_id_conv)
qed


lemma rank_inv_discard:
  assumes inv: "rank_inv d K fs s" and K: "0 < K" and full: "K \<le> length fs"
    and lt: "v < pw s ! (K - 1)"
  shows "rank_inv d K (fs @ [v]) (sum_step d (length fs) v s)"
proof -
  from inv have lp: "length (pw s) = K" and lx: "length (ix s) = K"
    and cm: "fs \<noteq> [] \<longrightarrow> count_mem s = min (length fs - 1) (K - 1)"
    and srt: "sorted_wrt (\<ge>) (take (length fs) (pw s))"
    and prs: "\<forall>(p, i) \<in> set (zip (take (length fs) (pw s)) (take (length fs) (ix s))). i < length fs \<and> p = fs ! i"
    and cnt: "length (filter (\<lambda>y. d < y) (take (length fs) (pw s))) = min K (length (filter (\<lambda>y. d < y) fs))"
    by (auto simp: rank_inv_def)
  have tk: "take (length fs) (pw s) = pw s" "take (Suc (length fs)) (pw s) = pw s"
    "take (length fs) (ix s) = ix s" "take (Suc (length fs)) (ix s) = ix s"
    using lp lx full by simp_all
  have ne: "pw s \<noteq> []" using lp K by auto
  have lst: "last (pw s) = pw s ! (K - 1)" using ne lp by (simp add: last_conv_nth)
  have c1: "count_mem s = min (length (fs @ [v]) - 1) (K - 1)"
    using cm full K by auto
  have c2: "\<forall>(p, i) \<in> set (zip (pw s) (ix s)). i < length (fs @ [v]) \<and> p = (fs @ [v]) ! i"
    using prs unfolding tk by (auto simp: nth_append)
  have c3: "length (filter (\<lambda>y. d < y) (pw s)) = min K (length (filter (\<lambda>y. d < y) (fs @ [v])))"
  proof (cases "d < v")
    case True
    then have "d < last (pw s)" using lt lst by simp
    then have "filter (\<lambda>y. d < y) (pw s) = pw s"
      using sorted_desc_all_above[of "pw s" d] srt ne unfolding tk by simp
    then have "length (filter (\<lambda>y. d < y) (pw s)) = K" using lp by simp
    then show ?thesis using cnt unfolding tk by simp
  next
    case False
    then show ?thesis using cnt unfolding tk by simp
  qed
  show ?thesis
    unfolding rank_inv_def using lp lx c1 c2 c3 srt tk full by simp
qed


lemma rank_inv_place:
  assumes inv: "rank_inv d K fs s" and K: "0 < K"
    and ge: "K \<le> length fs \<Longrightarrow> \<not> v < pw s ! (K - 1)"
  shows "rank_inv d K (fs @ [v]) (rank_step K (length fs) v (sum_step d (length fs) v s))"
proof -
  define m where "m = length fs"
  define c where "c = min m (K - 1)"
  define A where "A = take c (pw s)"
  define X where "X = take c (ix s)"
  define a where "a = slot_of v A"
  define B where "B = take a A @ v # drop a A"
  define BX where "BX = take a X @ m # drop a X"
  from inv have lp: "length (pw s) = K" and lx: "length (ix s) = K"
    and cm: "fs \<noteq> [] \<longrightarrow> count_mem s = min (m - 1) (K - 1)"
    and srt: "sorted_wrt (\<ge>) (take m (pw s))"
    and prs: "\<forall>(p, i) \<in> set (zip (take m (pw s)) (take m (ix s))). i < m \<and> p = fs ! i"
    and cnt: "length (filter (\<lambda>y. d < y) (take m (pw s))) = min K (length (filter (\<lambda>y. d < y) fs))"
    by (auto simp: rank_inv_def m_def)
  from inv have idx: "m \<le> K \<longrightarrow> set (take m (ix s)) = {..<m}"
    by (simp add: rank_inv_def m_def)
  have cK: "c < K" and cm_le: "c \<le> m" using K by (auto simp: c_def)
  have lA: "length A = c" and lX: "length X = c" using cK lp lx by (simp_all add: A_def X_def)
  have lB: "length B = Suc c" and lBX: "length BX = Suc c"
    using lA lX by (simp_all add: B_def BX_def a_def slot_of_le min_absorb2)
  have full: "K \<le> m \<Longrightarrow> count_mem (sum_step d m v s) = K - 1 \<and> \<not> v < pw (sum_step d m v s) ! (K - 1)"
    using cm ge K by (auto simp: m_def)
  have st: "rank_step K m v (sum_step d m v s) =
      (sum_step d m v s)\<lparr>pw := B @ drop (Suc c) (pw s), ix := BX @ drop (Suc c) (ix s), count_mem := c\<rparr>"
    using rank_step_placed[of K "sum_step d m v s" m v] K lp lx full
    by (simp add: Let_def c_def A_def X_def a_def B_def BX_def)
  have A_take: "A = take c (take m (pw s))" "X = take c (take m (ix s))"
    using cm_le by (simp_all add: A_def X_def min_absorb1)
  have sA: "sorted_wrt (\<ge>) A"
    unfolding A_take using srt by (rule sorted_wrt_take)
  have sB: "sorted_wrt (\<ge>) B"
    unfolding B_def a_def using sA by (rule placed_sorted)
  have tkB: "take (Suc m) (B @ drop (Suc c) (pw s)) = B"
  proof (cases "m < K")
    case True
    then have "c = m" by (simp add: c_def)
    then show ?thesis using lB by simp
  next
    case False
    then have "Suc c = K" using K by (simp add: c_def)
    then show ?thesis using lB lp False by simp
  qed
  have tkBX: "take (Suc m) (BX @ drop (Suc c) (ix s)) = BX"
  proof (cases "m < K")
    case True
    then have "c = m" by (simp add: c_def)
    then show ?thesis using lBX by simp
  next
    case False
    then have "Suc c = K" using K by (simp add: c_def)
    then show ?thesis using lBX lx False by simp
  qed
  have zB: "set (zip B BX) = insert (v, m) (set (zip A X))"
    unfolding B_def BX_def using lA lX by (intro placed_zip) simp
  have "zip A X = take c (zip (take m (pw s)) (take m (ix s)))"
    unfolding A_take by (simp add: take_zip)
  then have zA: "set (zip A X) \<subseteq> set (zip (take m (pw s)) (take m (ix s)))"
    by (simp add: set_take_subset)
  have c2: "\<forall>(p, i) \<in> set (zip B BX). i < Suc m \<and> p = (fs @ [v]) ! i"
  proof (clarify)
    fix p i assume "(p, i) \<in> set (zip B BX)"
    then consider "(p, i) = (v, m)" | "(p, i) \<in> set (zip (take m (pw s)) (take m (ix s)))"
      using zB zA by auto
    then show "i < Suc m \<and> p = (fs @ [v]) ! i"
    proof cases
      case 1
      then show ?thesis by (simp add: m_def)
    next
      case 2
      then have "i < m \<and> p = fs ! i" using prs by auto
      then show ?thesis by (simp add: nth_append m_def)
    qed
  qed
  have cB: "length (filter (\<lambda>y. d < y) B) = length (filter (\<lambda>y. d < y) A) + (if d < v then 1 else 0)"
    unfolding B_def by (rule placed_count)
  have fsle: "length (filter (\<lambda>y. d < y) fs) \<le> m"
    unfolding m_def by (rule length_filter_le)
  have c3: "length (filter (\<lambda>y. d < y) B) = min K (length (filter (\<lambda>y. d < y) (fs @ [v])))"
  proof (cases "m < K")
    case True
    then have "c = m" by (simp add: c_def)
    then have "A = take m (pw s)" by (simp add: A_def)
    then have "length (filter (\<lambda>y. d < y) A) = length (filter (\<lambda>y. d < y) fs)"
      using cnt fsle True by simp
    then show ?thesis using cB fsle True by simp
  next
    case False
    then have cK1: "c = K - 1" and tm: "take m (pw s) = pw s" using lp by (simp_all add: c_def)
    have ne: "pw s \<noteq> []" using lp K by auto
    have Ab: "A = butlast (pw s)" using cK1 lp by (simp add: A_def butlast_conv_take)
    have pA: "pw s = A @ [last (pw s)]" using ne Ab by simp
    have lst: "last (pw s) = pw s ! (K - 1)" using ne lp by (simp add: last_conv_nth)
    have split: "length (filter (\<lambda>y. d < y) (pw s)) =
        length (filter (\<lambda>y. d < y) A) + (if d < last (pw s) then 1 else 0)"
      by (subst pA) simp
    have lA': "length (filter (\<lambda>y. d < y) A) \<le> K - 1"
      using length_filter_le[of "\<lambda>y. d < y" A] lA cK1 by simp
    show ?thesis
    proof (cases "d < last (pw s)")
      case True
      then have "filter (\<lambda>y. d < y) (pw s) = pw s"
        using sorted_desc_all_above[of "pw s" d] srt ne unfolding tm by simp
      then have "length (filter (\<lambda>y. d < y) (pw s)) = K" using lp by simp
      moreover have "d < v" using True ge False lst by (simp add: m_def)
      ultimately show ?thesis using cB split cnt True K unfolding tm by simp
    next
      case False
      then show ?thesis using cB split cnt lA' K unfolding tm by auto
    qed
  qed
  have c1: "c = min (length (fs @ [v]) - 1) (K - 1)" by (simp add: c_def m_def)
  have c4: "Suc m \<le> K \<longrightarrow> set BX = {..<Suc m}"
  proof
    assume "Suc m \<le> K"
    then have cm': "c = m" by (simp add: c_def)
    have "set (take m (ix s)) = {..<m}" using idx \<open>Suc m \<le> K\<close> by simp
    then have "set X = {..<m}" using cm' by (simp add: X_def)
    moreover have "set BX = insert m (set X)"
      unfolding BX_def using set_append[of "take a X" "drop a X"] by auto
    ultimately show "set BX = {..<Suc m}" by (simp add: lessThan_Suc)
  qed
  have lBK: "length (B @ drop (Suc c) (pw s)) = K" "length (BX @ drop (Suc c) (ix s)) = K"
    using lB lBX lp lx cK by simp_all
  show ?thesis
    unfolding m_def[symmetric] st rank_inv_def
    using lBK c1 sB c2 c3 c4 tkB tkBX by (simp add: m_def)
qed


lemma ingest_from_snoc:
  "ingest_from d K m (fs @ [f]) s = ingest_cell d K (m + length fs) f (ingest_from d K m fs s)"
  by (induction fs arbitrary: m s) simp_all

lemma rank_inv_init: "rank_inv d K [] (init_point K)"
  by (simp add: rank_inv_def init_point_def)

lemma rank_inv_step:
  assumes "rank_inv d K fs s" "0 < K"
  shows "rank_inv d K (fs @ [v]) (ingest_cell d K (length fs) v s)"
proof (cases "K \<le> length fs \<and> v < pw s ! (K - 1)")
  case True
  then have "ingest_cell d K (length fs) v s = sum_step d (length fs) v s"
    by (simp add: ingest_cell_def rank_step_def)
  then show ?thesis using rank_inv_discard[OF assms] True by simp
next
  case False
  then show ?thesis using rank_inv_place[OF assms] by (auto simp: ingest_cell_def)
qed

lemma rank_inv_run:
  "0 < K \<Longrightarrow> rank_inv d K fs (ingest_from d K 0 fs (init_point K))"
proof (induction fs rule: rev_induct)
  case Nil
  then show ?case by (simp add: rank_inv_init)
next
  case (snoc v fs)
  then show ?case using rank_inv_step[of d K fs _ v] by (simp add: ingest_from_snoc)
qed


text \<open>
  The strongest reading and the power sum. The sort loop leaves the largest of the
  readings seen so far in slot 0, and \<^verbatim>\<open>arr_sumpower\<close> is the sum of
  \<^verbatim>\<open>pow(10.0, f_in / 10.0)\<close> over the readings above \<^verbatim>\<open>DB_MIN_VAL\<close>.
\<close>

lemma rank_step_sumpower [simp]: "sumpower (rank_step K m v s) = sumpower s"
  by (simp add: rank_step_def sort_cell_def split: prod.splits)




lemma rank_inv_nth:
  assumes inv: "rank_inv d K fs s" and j: "j < min K (length fs)"
  shows "ix s ! j < length fs \<and> pw s ! j = fs ! (ix s ! j)"
proof -
  let ?z = "zip (take (length fs) (pw s)) (take (length fs) (ix s))"
  from inv have lp: "length (pw s) = K" and lx: "length (ix s) = K"
    and prs: "\<forall>(p, i) \<in> set ?z. i < length fs \<and> p = fs ! i"
    by (simp_all add: rank_inv_def)
  have "j < length ?z" using j lp lx by simp
  then have "?z ! j \<in> set ?z" by (rule nth_mem)
  moreover have "?z ! j = (pw s ! j, ix s ! j)" using j lp lx by simp
  ultimately have "(pw s ! j, ix s ! j) \<in> set ?z" by simp
  then show ?thesis using prs by blast
qed

lemma run_point_Some:
  "0 < K \<Longrightarrow> run_point d K fs = Some (ingest_from d K 0 fs (init_point K))"
  by (simp add: run_point_def)

lemma full_step_form:
  assumes inv: "rank_inv d K fs s" and K: "0 < K" and full: "K \<le> length fs"
    and ge: "\<not> v < pw s ! (K - 1)"
  shows "pw (ingest_cell d K (length fs) v s) =
           filter (\<lambda>y. v \<le> y) (butlast (pw s)) @ v # filter (\<lambda>y. y < v) (butlast (pw s))"
    and "ix (ingest_cell d K (length fs) v s) =
           take (length (filter (\<lambda>y. v \<le> y) (butlast (pw s)))) (butlast (ix s)) @ length fs #
           drop (length (filter (\<lambda>y. v \<le> y) (butlast (pw s)))) (butlast (ix s))"
proof -
  define A where "A = butlast (pw s)"
  define X where "X = butlast (ix s)"
  define a where "a = slot_of v A"
  from inv have lp: "length (pw s) = K" and lx: "length (ix s) = K"
    and cm: "fs \<noteq> [] \<longrightarrow> count_mem s = min (length fs - 1) (K - 1)"
    and srt: "sorted_wrt (\<ge>) (take (length fs) (pw s))"
    by (simp_all add: rank_inv_def)
  have c: "min (length fs) (K - 1) = K - 1" using full by simp
  have A: "take (K - 1) (pw s) = A" and X: "take (K - 1) (ix s) = X"
    using lp lx by (simp_all add: A_def X_def butlast_conv_take)
  have dr: "drop (Suc (K - 1)) (pw s) = []" "drop (Suc (K - 1)) (ix s) = []"
    using lp lx K by simp_all
  have pre: "K \<le> length fs \<Longrightarrow>
      count_mem (sum_step d (length fs) v s) = K - 1 \<and> \<not> v < pw (sum_step d (length fs) v s) ! (K - 1)"
    using cm ge K full by auto
  have st0: "rank_step K (length fs) v (sum_step d (length fs) v s) =
     (let c = min (length fs) (K - 1); A = take c (pw (sum_step d (length fs) v s));
          X = take c (ix (sum_step d (length fs) v s)); a = slot_of v A in
        (sum_step d (length fs) v s)\<lparr>pw := take a A @ v # drop a A @ drop (Suc c) (pw (sum_step d (length fs) v s)),
          ix := take a X @ length fs # drop a X @ drop (Suc c) (ix (sum_step d (length fs) v s)),
          count_mem := c\<rparr>)"
    by (rule rank_step_placed[OF K _ _ pre]) (simp_all add: lp lx)
  have st: "ingest_cell d K (length fs) v s =
      (sum_step d (length fs) v s)\<lparr>pw := take a A @ v # drop a A,
         ix := take a X @ length fs # drop a X, count_mem := K - 1\<rparr>"
    unfolding ingest_cell_def st0
    by (simp only: Let_def c sum_step_rank A X dr append_Nil2 a_def[symmetric])
  have "sorted_wrt (\<ge>) (pw s)" using srt lp full by simp
  then have "sorted_wrt (\<ge>) (take (K - 1) (pw s))" by (rule sorted_wrt_take)
  then have sA: "sorted_wrt (\<ge>) A" using A by simp
  have tk: "take a A = filter (\<lambda>y. v \<le> y) A" and dk: "drop a A = filter (\<lambda>y. y < v) A"
    using slot_of_sorted[OF sA, of v] by (simp_all add: a_def)
  have "length (take a A) = a" using slot_of_le[of v A] by (simp add: a_def)
  then have a: "a = length (filter (\<lambda>y. v \<le> y) A)" using tk by simp
  show "pw (ingest_cell d K (length fs) v s) =
           filter (\<lambda>y. v \<le> y) (butlast (pw s)) @ v # filter (\<lambda>y. y < v) (butlast (pw s))"
    using st tk dk by (simp add: A_def)
  show "ix (ingest_cell d K (length fs) v s) =
           take (length (filter (\<lambda>y. v \<le> y) (butlast (pw s)))) (butlast (ix s)) @ length fs #
           drop (length (filter (\<lambda>y. v \<le> y) (butlast (pw s)))) (butlast (ix s))"
    using st a by (simp add: A_def X_def)
qed

lemma later_reading_step:
  assumes K: "0 < K" and full: "K \<le> length fs"
    and s: "s = ingest_from d K 0 fs (init_point K)"
    and s': "s' = ingest_from d K 0 (fs @ [v]) (init_point K)"
  shows "if v < pw s ! (K - 1)
         then pw s' = pw s \<and> ix s' = ix s
         else pw s' = filter (\<lambda>y. v \<le> y) (butlast (pw s)) @ v #
                      filter (\<lambda>y. y < v) (butlast (pw s)) \<and>
              ix s' = take (length (filter (\<lambda>y. v \<le> y) (butlast (pw s)))) (butlast (ix s)) @
                      length fs #
                      drop (length (filter (\<lambda>y. v \<le> y) (butlast (pw s)))) (butlast (ix s))"
proof -
  have inv: "rank_inv d K fs s"
    unfolding s using K by (rule rank_inv_run)
  have st: "s' = ingest_cell d K (length fs) v s"
    by (simp add: s' s ingest_from_snoc)
  show ?thesis
  proof (cases "v < pw s ! (K - 1)")
    case True
    then show ?thesis using full
      by (simp add: st ingest_cell_def rank_step_def)
  next
    case False
    then show ?thesis
      using full_step_form[OF inv K full False] by (simp add: st)
  qed
qed

lemmas run_simps =
  run_point_def init_point_def ingest_cell_def sum_step_def rank_step_def sort_cell_def
  Let_def eval_nat_numeral

subsection \<open>Claims on the ranking\<close>

text \<open>
  Claim C7. Here and below \<open>K\<close> stands for \<^verbatim>\<open>cell_num\<close>. At every point and after
  every number of maps folded in (the readings \<open>fs\<close> seen so far, of any length), the
  slots of the power column written so far,
  \<open>min K (length fs)\<close> of them from slot 0 on without a gap, are in descending
  order, and each of them holds the reading of the map its index entry names.
\<close>

theorem ranked_prefix_sorted:
  assumes "0 < K"
  shows "\<exists>s. run_point dbmin K fs = Some s \<and>
           length (pw s) = K \<and> length (ix s) = K \<and>
           sorted_wrt (\<ge>) (take (length fs) (pw s)) \<and>
           (\<forall>j < min K (length fs). ix s ! j < length fs \<and> pw s ! j = fs ! (ix s ! j))"
proof -
  define s where "s = ingest_from dbmin K 0 fs (init_point K)"
  have inv: "rank_inv dbmin K fs s"
    unfolding s_def using assms by (rule rank_inv_run)
  have run: "run_point dbmin K fs = Some s"
    using assms by (simp add: run_point_Some s_def)
  have "length (pw s) = K" "length (ix s) = K"
    "sorted_wrt (\<ge>) (take (length fs) (pw s))"
    using inv by (simp_all add: rank_inv_def)
  moreover have "\<forall>j < min K (length fs). ix s ! j < length fs \<and> pw s ! j = fs ! (ix s ! j)"
    using rank_inv_nth[OF inv] by blast
  ultimately show ?thesis using run by blast
qed

theorem ranked_prefix_sorted_witness:
  "0 < (2::nat) \<and>
   (\<exists>s. run_point (-999) 2 [-80, -60, -95] = Some s \<and> pw s = [-60, -80] \<and> ix s = [1, 0] \<and>
        sorted_wrt (\<ge>) (take 3 (pw s)))"
  using ranked_prefix_sorted [of 2 "-999" "[-80, -60, -95]"]
  by (simp add: run_simps)

text \<open>
  Claim C1, as the code has it. Let the column of a point be full (at least
  \<open>K\<close> maps folded in) and \<open>v\<close> the reading of the next map. If \<open>v\<close> is
  strictly below the last slot, both columns stay as they are. Otherwise, also when
  \<open>v\<close> equals the last slot, the entry of the last slot is dropped and \<open>v\<close> enters
  with the index of its map: it comes to stand behind every remaining entry that is
  greater or equal and before every smaller one, so it never passes an equal entry.
  The power column is in descending order afterwards.
\<close>

theorem full_column_insert:
  assumes "0 < K" and "K \<le> length fs"
  shows "\<exists>s s'. run_point dbmin K fs = Some s \<and>
           run_point dbmin K (fs @ [v]) = Some s' \<and>
           (if v < pw s ! (K - 1)
            then pw s' = pw s \<and> ix s' = ix s
            else pw s' = filter (\<lambda>y. v \<le> y) (butlast (pw s)) @ v #
                         filter (\<lambda>y. y < v) (butlast (pw s)) \<and>
                 ix s' = take (length (filter (\<lambda>y. v \<le> y) (butlast (pw s)))) (butlast (ix s)) @
                         length fs #
                         drop (length (filter (\<lambda>y. v \<le> y) (butlast (pw s)))) (butlast (ix s))) \<and>
           sorted_wrt (\<ge>) (pw s')"
proof -
  define s where "s = ingest_from dbmin K 0 fs (init_point K)"
  define s' where "s' = ingest_cell dbmin K (length fs) v s"
  have inv: "rank_inv dbmin K fs s"
    unfolding s_def using assms(1) by (rule rank_inv_run)
  have inv': "rank_inv dbmin K (fs @ [v]) s'"
    unfolding s'_def using inv assms(1) by (rule rank_inv_step)
  have run: "run_point dbmin K fs = Some s"
    using assms(1) by (simp add: run_point_Some s_def)
  have run': "run_point dbmin K (fs @ [v]) = Some s'"
    using assms(1) by (simp add: run_point_Some s_def s'_def ingest_from_snoc)
  have "length (pw s') = K" "sorted_wrt (\<ge>) (take (length (fs @ [v])) (pw s'))"
    using inv' by (simp_all add: rank_inv_def)
  then have srt: "sorted_wrt (\<ge>) (pw s')" using assms(2) by simp
  have step: "if v < pw s ! (K - 1)
            then pw s' = pw s \<and> ix s' = ix s
            else pw s' = filter (\<lambda>y. v \<le> y) (butlast (pw s)) @ v #
                         filter (\<lambda>y. y < v) (butlast (pw s)) \<and>
                 ix s' = take (length (filter (\<lambda>y. v \<le> y) (butlast (pw s)))) (butlast (ix s)) @
                         length fs #
                         drop (length (filter (\<lambda>y. v \<le> y) (butlast (pw s)))) (butlast (ix s))"
  proof (cases "v < pw s ! (K - 1)")
    case True
    then show ?thesis using assms(2)
      by (simp add: s'_def ingest_cell_def rank_step_def)
  next
    case False
    then show ?thesis
      using full_step_form[OF inv assms(1) assms(2) False] by (simp add: s'_def)
  qed
  show ?thesis using run run' step srt by blast
qed

theorem full_column_insert_witness:
  "0 < (2::nat) \<and> 2 \<le> length [-60, -80 :: real] \<and>
   (\<exists>s s'. run_point (-999) 2 [-60, -80] = Some s \<and> pw s = [-60, -80] \<and> ix s = [0, 1] \<and>
      run_point (-999) 2 ([-60, -80] @ [-70]) = Some s' \<and> pw s' = [-60, -70] \<and> ix s' = [0, 2] \<and>
      sorted_wrt (\<ge>) (pw s'))"
  using full_column_insert [of 2 "[-60, -80]" "-999" "-70"]
  by (simp add: run_simps)

text \<open>
  The claim as the specification states it fails where the new reading equals the last
  slot: with two slots holding \<open>-60\<close> of map 0 and \<open>-80\<close> of map 1, the reading
  \<open>-80\<close> of map 2 is not greater than the last slot, and yet it is not discarded:
  the last slot names map 2 afterwards, the entry of map 1 is gone.
\<close>

theorem equal_reading_displaces_last_slot:
  "map_option pw (run_point (-999) 2 [-60, -80]) = Some [-60, -80] \<and>
   map_option ix (run_point (-999) 2 [-60, -80]) = Some [0, 1] \<and>
   \<not> (-80 :: real) > [-60, -80] ! 1 \<and>
   map_option pw (run_point (-999) 2 [-60, -80, -80]) = Some [-60, -80] \<and>
   map_option ix (run_point (-999) 2 [-60, -80, -80]) = Some [0, 2]"
  by (simp add: run_simps)

text \<open>
  Claim C2, as the code has it. A reading of \<^verbatim>\<open>DB_MIN_VAL\<close> is ranked like any other
  reading; the statement holds for all readings \<open>fs\<close>, and no test against
  \<^verbatim>\<open>DB_MIN_VAL\<close> occurs in it. Each of the first \<open>K\<close> maps is stored whatever its
  reading: after them the index column names exactly these maps and every slot holds
  the reading of the map it names. A later map \<open>n\<close> is stored whenever its reading
  is not below the last slot, also when it equals the last slot: the
  entry of the last slot is dropped and the reading enters with the index \<open>n\<close>
  behind the entries that are greater or equal; a reading below the last slot leaves
  both columns as they are. After all maps (at least \<open>K\<close> of them) every slot holds
  the reading of the map it names, and the number of slots above \<^verbatim>\<open>DB_MIN_VAL\<close> is
  the smaller of \<open>K\<close> and the number of readings above \<^verbatim>\<open>DB_MIN_VAL\<close>.
\<close>

theorem sentinel_ranked_like_any_reading:
  assumes "0 < K" and "K \<le> length fs"
  shows "(\<exists>s0. run_point dbmin K (take K fs) = Some s0 \<and>
               set (ix s0) = {..<K} \<and> (\<forall>j < K. pw s0 ! j = fs ! (ix s0 ! j))) \<and>
         (\<forall>n. K \<le> n \<and> n < length fs \<longrightarrow>
            (\<exists>s s'. run_point dbmin K (take n fs) = Some s \<and>
                     run_point dbmin K (take (Suc n) fs) = Some s' \<and>
                     (if fs ! n < pw s ! (K - 1)
                      then pw s' = pw s \<and> ix s' = ix s
                      else pw s' = filter (\<lambda>y. fs ! n \<le> y) (butlast (pw s)) @ fs ! n #
                                   filter (\<lambda>y. y < fs ! n) (butlast (pw s)) \<and>
                           ix s' = take (length (filter (\<lambda>y. fs ! n \<le> y) (butlast (pw s))))
                                     (butlast (ix s)) @ n #
                                   drop (length (filter (\<lambda>y. fs ! n \<le> y) (butlast (pw s))))
                                     (butlast (ix s))))) \<and>
         (\<exists>s. run_point dbmin K fs = Some s \<and>
              length (pw s) = K \<and> length (ix s) = K \<and>
              (\<forall>j < K. ix s ! j < length fs \<and> pw s ! j = fs ! (ix s ! j)) \<and>
              length (filter (\<lambda>y. dbmin < y) (pw s)) =
                min K (length (filter (\<lambda>y. dbmin < y) fs)))"
proof -
  define s0 where "s0 = ingest_from dbmin K 0 (take K fs) (init_point K)"
  define s where "s = ingest_from dbmin K 0 fs (init_point K)"
  have inv0: "rank_inv dbmin K (take K fs) s0"
    unfolding s0_def using assms(1) by (rule rank_inv_run)
  have inv: "rank_inv dbmin K fs s"
    unfolding s_def using assms(1) by (rule rank_inv_run)
  have l0: "length (take K fs) = K" using assms(2) by simp
  have lx0: "length (ix s0) = K"
    using inv0 by (simp add: rank_inv_def)
  have "length (take K fs) \<le> K \<longrightarrow>
      set (take (length (take K fs)) (ix s0)) = {..<length (take K fs)}"
    using inv0 unfolding rank_inv_def by blast
  then have "set (take K (ix s0)) = {..<K}"
    unfolding l0 by simp
  then have a: "set (ix s0) = {..<K}" using lx0 by simp
  have a': "\<forall>j < K. pw s0 ! j = fs ! (ix s0 ! j)"
  proof (intro allI impI)
    fix j assume j: "j < K"
    then have "j < min K (length (take K fs))" using l0 by simp
    from rank_inv_nth[OF inv0 this]
    have "ix s0 ! j < length (take K fs)" and "pw s0 ! j = take K fs ! (ix s0 ! j)" by simp_all
    then show "pw s0 ! j = fs ! (ix s0 ! j)" by simp
  qed
  have st: "\<forall>n. K \<le> n \<and> n < length fs \<longrightarrow>
            (\<exists>s s'. run_point dbmin K (take n fs) = Some s \<and>
                     run_point dbmin K (take (Suc n) fs) = Some s' \<and>
                     (if fs ! n < pw s ! (K - 1)
                      then pw s' = pw s \<and> ix s' = ix s
                      else pw s' = filter (\<lambda>y. fs ! n \<le> y) (butlast (pw s)) @ fs ! n #
                                   filter (\<lambda>y. y < fs ! n) (butlast (pw s)) \<and>
                           ix s' = take (length (filter (\<lambda>y. fs ! n \<le> y) (butlast (pw s))))
                                     (butlast (ix s)) @ n #
                                   drop (length (filter (\<lambda>y. fs ! n \<le> y) (butlast (pw s))))
                                     (butlast (ix s))))"
  proof (intro allI impI)
    fix n assume n: "K \<le> n \<and> n < length fs"
    then have ln: "length (take n fs) = n" and full: "K \<le> length (take n fs)" by simp_all
    have sn: "take (Suc n) fs = take n fs @ [fs ! n]"
      using n by (simp add: take_Suc_conv_app_nth)
    have r1: "run_point dbmin K (take n fs) = Some (ingest_from dbmin K 0 (take n fs) (init_point K))"
      using assms(1) by (rule run_point_Some)
    have r2: "run_point dbmin K (take (Suc n) fs) =
        Some (ingest_from dbmin K 0 (take n fs @ [fs ! n]) (init_point K))"
      unfolding sn using assms(1) by (rule run_point_Some)
    show "\<exists>s s'. run_point dbmin K (take n fs) = Some s \<and>
                     run_point dbmin K (take (Suc n) fs) = Some s' \<and>
                     (if fs ! n < pw s ! (K - 1)
                      then pw s' = pw s \<and> ix s' = ix s
                      else pw s' = filter (\<lambda>y. fs ! n \<le> y) (butlast (pw s)) @ fs ! n #
                                   filter (\<lambda>y. y < fs ! n) (butlast (pw s)) \<and>
                           ix s' = take (length (filter (\<lambda>y. fs ! n \<le> y) (butlast (pw s))))
                                     (butlast (ix s)) @ n #
                                   drop (length (filter (\<lambda>y. fs ! n \<le> y) (butlast (pw s))))
                                     (butlast (ix s)))"
      using later_reading_step[OF assms(1) full refl refl, where d = dbmin and v = "fs ! n"] r1 r2
      unfolding ln by blast
  qed
  have lp: "length (pw s) = K" and lx: "length (ix s) = K"
    using inv by (simp_all add: rank_inv_def)
  have "length (filter (\<lambda>y. dbmin < y) (take (length fs) (pw s))) =
      min K (length (filter (\<lambda>y. dbmin < y) fs))"
    using inv by (simp add: rank_inv_def)
  then have b: "length (filter (\<lambda>y. dbmin < y) (pw s)) =
      min K (length (filter (\<lambda>y. dbmin < y) fs))"
    using lp assms(2) by simp
  have c: "\<forall>j < K. ix s ! j < length fs \<and> pw s ! j = fs ! (ix s ! j)"
    using rank_inv_nth[OF inv] assms(2) by simp
  have r0: "run_point dbmin K (take K fs) = Some s0"
    and r: "run_point dbmin K fs = Some s"
    using assms(1) by (simp_all add: run_point_Some s0_def s_def)
  have A: "\<exists>s0. run_point dbmin K (take K fs) = Some s0 \<and>
               set (ix s0) = {..<K} \<and> (\<forall>j < K. pw s0 ! j = fs ! (ix s0 ! j))"
    using r0 a a' by blast
  have C: "\<exists>s. run_point dbmin K fs = Some s \<and>
              length (pw s) = K \<and> length (ix s) = K \<and>
              (\<forall>j < K. ix s ! j < length fs \<and> pw s ! j = fs ! (ix s ! j)) \<and>
              length (filter (\<lambda>y. dbmin < y) (pw s)) =
                min K (length (filter (\<lambda>y. dbmin < y) fs))"
    using r lp lx c b by blast
  show ?thesis using A st C by (intro conjI)
qed

theorem sentinel_ranked_like_any_reading_witness:
  "0 < (2::nat) \<and> 2 \<le> length [-999, -80, -999 :: real] \<and>
   (\<exists>s0. run_point (-999) 2 (take 2 [-999, -80, -999]) = Some s0 \<and> pw s0 = [-80, -999] \<and>
         ix s0 = [1, 0]) \<and>
   \<not> ([-999, -80, -999 :: real] ! 2 < [-80, -999] ! (2 - 1)) \<and>
   (\<exists>s s'. run_point (-999) 2 (take 2 [-999, -80, -999]) = Some s \<and>
           run_point (-999) 2 (take (Suc 2) [-999, -80, -999]) = Some s' \<and>
           pw s = [-80, -999] \<and> ix s = [1, 0] \<and> pw s' = [-80, -999] \<and> ix s' = [1, 2]) \<and>
   (\<exists>s. run_point (-999) 2 [-999, -80, -999] = Some s \<and> pw s = [-80, -999] \<and> ix s = [1, 2] \<and>
        length (filter (\<lambda>y. -999 < y) (pw s)) = 1)"
  using sentinel_ranked_like_any_reading [of 2 "[-999, -80, -999]" "-999"]
  by (simp add: run_simps)

text \<open>
  The claim as the specification states it fails: at a point whose first reading is
  \<open>-80\<close> and whose second reading is \<^verbatim>\<open>DB_MIN_VAL\<close> (here \<open>-999\<close>), with two slots,
  the second reading is stored in slot 1 although it is not the first reading of the
  point, and both slots are written although one reading only is above
  \<^verbatim>\<open>DB_MIN_VAL\<close>.
\<close>

theorem sentinel_stored_after_first_reading:
  "map_option pw (run_point (-999) 2 [-80, -999]) = Some [-80, -999] \<and>
   map_option ix (run_point (-999) 2 [-80, -999]) = Some [0, 1]"
  by (simp add: run_simps)

subsection \<open>The scan of fill_database\<close>

text \<open>
  In the CSV mode the scan writes one line per record. In the insert mode, when every
  statement succeeds, the scan of a raster row executes the records of the row in
  pieces of \<^verbatim>\<open>SQLPacketSize\<close>, and the last piece at the last column of the row.
\<close>

declare chunks.simps [simp del]
declare show_nat.simps [simp del]

lemma seq_Inr [simp]: "seq (t, Inr x) f = (t @ fst (f x), snd (f x))"
  by (simp add: seq_def split: prod.splits)

lemma seq_Inl [simp]: "seq (t, Inl err) f = (t, Inl err)"
  by (simp add: seq_def)

lemmas run_defs = ret_def emit_def fatal_def undefined_behaviour_def

lemma chunks_Nil [simp]: "chunks n [] = []"
  by (simp add: chunks.simps)

lemma chunks_short: "xs \<noteq> [] \<Longrightarrow> length xs \<le> n \<Longrightarrow> chunks n xs = [xs]"
  by (subst chunks.simps) auto

lemma chunks_full: "0 < n \<Longrightarrow> length xs = n \<Longrightarrow> chunks n (xs @ ys) = xs # chunks n ys"
  by (subst chunks.simps) auto

lemma ceil_div_step: "0 < n \<Longrightarrow> 0 < l \<Longrightarrow> (l + n - 1) div n = Suc ((l - 1) div n)"
proof -
  assume n: "0 < n" and l: "0 < (l::nat)"
  have e: "l + n - 1 = n + (l - 1)" using l by arith
  have "(n + (l - 1)) div n = (l - 1) div n + 1"
    using n by (intro div_add_self1) simp
  then show ?thesis unfolding e by simp
qed

lemma length_chunks: "0 < n \<Longrightarrow> length (chunks n xs) = (length xs + n - 1) div n"
proof (induction n xs rule: chunks.induct)
  case (1 n xs)
  show ?case
  proof (cases "xs = []")
    case True
    then show ?thesis using 1(2) by simp
  next
    case False
    then have l: "0 < length xs" by simp
    have ih: "length (chunks n (drop n xs)) = (length (drop n xs) + n - 1) div n"
      using 1 False by simp
    show ?thesis
    proof (cases "length xs \<le> n")
      case True
      then have "chunks n xs = [xs]" using False by (simp add: chunks_short)
      moreover have "length xs - 1 < n" using True l by arith
      then have "(length xs - 1) div n = 0" by (rule div_less)
      ultimately show ?thesis using ceil_div_step[OF 1(2) l] by simp
    next
      case gt: False
      have c: "chunks n xs = take n xs # chunks n (drop n xs)"
        using False 1(2) by (subst chunks.simps) simp
      have e: "length xs - 1 = n + (length xs - n - 1)" using gt by arith
      have "(n + (length xs - n - 1)) div n = (length xs - n - 1) div n + 1"
        using 1(2) by (intro div_add_self1) simp
      then have "(length xs - 1) div n = Suc ((length xs - n - 1) div n)"
        using e by simp
      moreover have "(length (drop n xs) + n - 1) div n = Suc ((length xs - n - 1) div n)"
        using ceil_div_step[OF 1(2), of "length xs - n"] gt by simp
      ultimately show ?thesis using c ih ceil_div_step[OF 1(2) l] by simp
    qed
  qed
qed

lemma insert_sql_snoc:
  "P \<noteq> [] \<Longrightarrow> insert_sql tbl (P @ [r]) = insert_sql tbl P @ '' ,('' @ r @ '')''"
  by (cases P) simp_all


lemma flush_packet_csv [simp]: "flush_packet e a True pk col st = ([], Inr st)"
  by (cases st) (simp add: flush_packet_def run_defs)

lemma scan_cols_csv:
  "\<exists>st'. scan_cols d e a True pk row cols st =
     (map (\<lambda>col. WriteLine (record_text e a row col))
        (filter (\<lambda>col. arr_power a ! 0 ! (row * ncols a + col) \<noteq> d) cols), Inr st')"
proof (induction cols arbitrary: st)
  case Nil
  then show ?case by (simp add: ret_def)
next
  case (Cons col cols)
  obtain sql n where st: "st = (sql, n)" by (cases st)
  show ?case
  proof (cases "arr_power a ! 0 ! (row * ncols a + col) \<noteq> d")
    case True
    obtain st' where "scan_cols d e a True pk row cols (record_text e a row col, n) =
     (map (\<lambda>col. WriteLine (record_text e a row col))
        (filter (\<lambda>col. arr_power a ! 0 ! (row * ncols a + col) \<noteq> d) cols), Inr st')"
      using Cons.IH by blast
    then show ?thesis using True st by (simp add: add_record_def run_defs)
  next
    case False
    obtain st' where "scan_cols d e a True pk row cols (sql, n) =
     (map (\<lambda>col. WriteLine (record_text e a row col))
        (filter (\<lambda>col. arr_power a ! 0 ! (row * ncols a + col) \<noteq> d) cols), Inr st')"
      using Cons.IH by blast
    then show ?thesis using False st by (simp add: add_record_def run_defs)
  qed
qed

lemma scan_rows_csv:
  "\<exists>s'. scan_rows d e a True pk rows sql =
     (concat (map (\<lambda>row. map WriteLine (row_records d e a row)) rows), Inr s')"
proof (induction rows arbitrary: sql)
  case Nil
  then show ?case by (simp add: ret_def)
next
  case (Cons row rows)
  obtain st' where c: "scan_cols d e a True pk row [0..<ncols a] (sql, 0) =
      (map WriteLine (row_records d e a row), Inr st')"
    using scan_cols_csv[of d e a pk row "[0..<ncols a]" "(sql, 0)"]
    by (auto simp: row_records_def eligible_def comp_def)
  obtain s' where "scan_rows d e a True pk rows (fst st') =
     (concat (map (\<lambda>row. map WriteLine (row_records d e a row)) rows), Inr s')"
    using Cons.IH by blast
  then show ?case using c by simp
qed

lemma scan_cols_insert:
  assumes ok: "\<forall>q. exec_ok e q" and pk: "0 < pk"
  shows "length P < pk \<Longrightarrow> (P \<noteq> [] \<Longrightarrow> sql = insert_sql (tbl_name a) P) \<Longrightarrow>
     c < ncols a \<Longrightarrow> k = ncols a - c \<Longrightarrow>
     \<exists>sql'. scan_cols d e a False pk row [c..<ncols a] (sql, length P) =
       (map (\<lambda>rs. Execute (insert_sql (tbl_name a) rs))
          (chunks pk (P @ map (record_text e a row)
             (filter (\<lambda>col. arr_power a ! 0 ! (row * ncols a + col) \<noteq> d) [c..<ncols a]))),
        Inr (sql', 0))"
proof (induction k arbitrary: c P sql)
  case 0
  then show ?case by simp
next
  case (Suc k)
  let ?el = "\<lambda>col. arr_power a ! 0 ! (row * ncols a + col) \<noteq> d"
  let ?r = "record_text e a row c"
  have up: "[c..<ncols a] = c # [Suc c..<ncols a]"
    using Suc.prems(3) by (simp add: upt_conv_Cons)
  define P' where "P' = (if ?el c then P @ [?r] else P)"
  define sql1 where "sql1 = (if ?el c then
      (if length P = 0 then ''INSERT INTO '' @ tbl_name a @ '' VALUES ('' else sql @ '' ,('') @ ?r @ '')''
      else sql)"
  have ar: "add_record d e a False row c (sql, length P) = ([], Inr (sql1, length P'))"
    by (simp add: add_record_def sql1_def P'_def run_defs)
  have s1: "P' \<noteq> [] \<Longrightarrow> sql1 = insert_sql (tbl_name a) P'"
  proof (cases "?el c")
    case True
    show ?thesis
    proof (cases "P = []")
      case True
      then show ?thesis using \<open>?el c\<close> by (simp add: sql1_def P'_def)
    next
      case False
      then show ?thesis using \<open>?el c\<close> Suc.prems(2) by (simp add: sql1_def P'_def insert_sql_snoc)
    qed
  next
    case False
    assume "P' \<noteq> []"
    then show ?thesis using False Suc.prems(2) by (simp add: sql1_def P'_def)
  qed
  have lP': "length P' \<le> pk" using Suc.prems(1) by (simp add: P'_def)
  define rest where "rest = map (record_text e a row) (filter ?el [Suc c..<ncols a])"
  have recs: "P @ map (record_text e a row) (filter ?el [c..<ncols a]) = P' @ rest"
    unfolding up by (simp add: P'_def rest_def)
  have sc: "scan_cols d e a False pk row [c..<ncols a] (sql, length P) =
      seq (flush_packet e a False pk c (sql1, length P')) (scan_cols d e a False pk row [Suc c..<ncols a])"
    by (subst up) (simp add: ar)
  have flush: "0 < length P' \<Longrightarrow> length P' = pk \<or> Suc c = ncols a \<Longrightarrow>
      flush_packet e a False pk c (sql1, length P') = ([Execute sql1], Inr (sql1, 0))"
    using ok by (simp add: flush_packet_def run_defs)
  have noflush: "length P' = 0 \<or> (length P' \<noteq> pk \<and> Suc c \<noteq> ncols a) \<Longrightarrow>
      flush_packet e a False pk c (sql1, length P') = ([], Inr (sql1, length P'))"
    by (auto simp: flush_packet_def run_defs)
  show ?case
  proof (cases "Suc c = ncols a")
    case last: True
    then have r0: "rest = []" and u0: "[Suc c..<ncols a] = []" by (simp_all add: rest_def)
    show ?thesis
    proof (cases "P' = []")
      case True
      then have "scan_cols d e a False pk row [c..<ncols a] (sql, length P) = ([], Inr (sql1, 0))"
        unfolding sc u0 using noflush by (simp add: run_defs)
      then show ?thesis unfolding recs r0 using True by simp
    next
      case False
      then have "chunks pk (P' @ []) = [P']" using lP' by (simp add: chunks_short)
      moreover have "scan_cols d e a False pk row [c..<ncols a] (sql, length P) =
          ([Execute sql1], Inr (sql1, 0))"
        unfolding sc u0 using flush False last by (simp add: run_defs)
      ultimately show ?thesis unfolding recs r0 using s1 False by simp
    qed
  next
    case notlast: False
    then have c': "Suc c < ncols a" and k': "k = ncols a - Suc c"
      using Suc.prems(3,4) by simp_all
    show ?thesis
    proof (cases "length P' = pk")
      case True
      then have ne: "P' \<noteq> []" using pk by auto
      obtain sql' where ih: "scan_cols d e a False pk row [Suc c..<ncols a] (sql1, 0) =
       (map (\<lambda>rs. Execute (insert_sql (tbl_name a) rs)) (chunks pk rest), Inr (sql', 0))"
        using Suc.IH[of "[]" sql1 "Suc c"] pk c' k' by (auto simp: rest_def)
      have ch: "chunks pk (P' @ rest) = P' # chunks pk rest"
        using True pk by (simp add: chunks_full)
      have "scan_cols d e a False pk row [c..<ncols a] (sql, length P) =
          (Execute sql1 # map (\<lambda>rs. Execute (insert_sql (tbl_name a) rs)) (chunks pk rest), Inr (sql', 0))"
        unfolding sc using flush True ne ih pk by simp
      then show ?thesis unfolding recs ch using s1 ne by simp
    next
      case False
      then have lt: "length P' < pk" using lP' by simp
      obtain sql' where ih: "scan_cols d e a False pk row [Suc c..<ncols a] (sql1, length P') =
       (map (\<lambda>rs. Execute (insert_sql (tbl_name a) rs)) (chunks pk (P' @ rest)), Inr (sql', 0))"
        using Suc.IH[of P' sql1 "Suc c"] lt s1 c' k' by (auto simp: rest_def)
      have "scan_cols d e a False pk row [c..<ncols a] (sql, length P) =
       (map (\<lambda>rs. Execute (insert_sql (tbl_name a) rs)) (chunks pk (P' @ rest)), Inr (sql', 0))"
        unfolding sc using noflush False notlast ih by simp
      then show ?thesis unfolding recs by blast
    qed
  qed
qed

lemma scan_row_insert:
  assumes ok: "\<forall>q. exec_ok e q" and pk: "0 < pk"
  shows "\<exists>st'. scan_cols d e a False pk row [0..<ncols a] (sql, 0) =
       (map (\<lambda>rs. Execute (insert_sql (tbl_name a) rs)) (chunks pk (row_records d e a row)), Inr st')"
proof (cases "ncols a = 0")
  case True
  then show ?thesis by (simp add: row_records_def eligible_def run_defs)
next
  case False
  then show ?thesis
    using scan_cols_insert[OF ok pk, of "[]" sql a 0 "ncols a" d row] pk
    by (auto simp: row_records_def eligible_def)
qed

lemma scan_rows_insert:
  assumes ok: "\<forall>q. exec_ok e q" and pk: "0 < pk"
  shows "\<exists>s'. scan_rows d e a False pk rows sql =
     (map (\<lambda>rs. Execute (insert_sql (tbl_name a) rs))
        (concat (map (\<lambda>row. chunks pk (row_records d e a row)) rows)), Inr s')"
proof (induction rows arbitrary: sql)
  case Nil
  then show ?case by (simp add: run_defs)
next
  case (Cons row rows)
  obtain st' where c: "scan_cols d e a False pk row [0..<ncols a] (sql, 0) =
       (map (\<lambda>rs. Execute (insert_sql (tbl_name a) rs)) (chunks pk (row_records d e a row)), Inr st')"
    using scan_row_insert[OF ok pk] by blast
  obtain s' where "scan_rows d e a False pk rows (fst st') =
     (map (\<lambda>rs. Execute (insert_sql (tbl_name a) rs))
        (concat (map (\<lambda>row. chunks pk (row_records d e a row)) rows)), Inr s')"
    using Cons.IH by blast
  then show ?case using c by simp
qed


lemma steps_Cons_Inr [simp]: "steps ((t, Inr u) # rs) = (t @ fst (steps rs), snd (steps rs))"
  by simp

lemma steps_Cons_Inl [simp]: "steps ((t, Inl err) # rs) = (t, Inl err)"
  by simp

lemma steps_Nil' [simp]: "steps [] = ([], Inr ())"
  by (simp add: run_defs)

declare steps.simps [simp del]

lemma fill_database_insert:
  assumes "\<not> csv_only a" "\<not> csv2db a" "0 < SQLPacketSize a"
    and "begin_ok e" "commit_ok e" "\<forall>q. exec_ok e q"
  shows "fill_database d e a =
     (StartDriver (drv_name a) (db_name a) # BeginTransaction #
      map (\<lambda>rs. Execute (insert_sql (tbl_name a) rs))
        (concat (map (\<lambda>row. chunks (SQLPacketSize a) (row_records d e a row)) [0..<nrows a])) @
      [CommitTransaction, CloseDriver], Inr ())"
proof -
  obtain s' where sc: "scan_rows d e a False (SQLPacketSize a) [0..<nrows a] [] =
     (map (\<lambda>rs. Execute (insert_sql (tbl_name a) rs))
        (concat (map (\<lambda>row. chunks (SQLPacketSize a) (row_records d e a row)) [0..<nrows a])), Inr s')"
    using scan_rows_insert[OF assms(6) assms(3)] by blast
  show ?thesis
    using assms(1,2,4,5) sc
    by (simp add: fill_database_def open_sink_def close_sink_def run_defs)
qed

lemma fill_database_csv:
  assumes "csv_only a" "file_exists e \<longrightarrow> ovr a" "open_ok e"
  shows "fill_database d e a =
     (ProbeFile (tbl_name a) # OpenFile (tbl_name a) #
      map WriteLine (all_records d e a) @ [CloseFile], Inr ())"
proof -
  have c: "csv2db a" using assms(1) by (simp add: csv2db_def)
  obtain s' where sc: "scan_rows d e a True (SQLPacketSize a) [0..<nrows a] [] =
     (concat (map (\<lambda>row. map WriteLine (row_records d e a row)) [0..<nrows a]), Inr s')"
    using scan_rows_csv by blast
  show ?thesis
    using assms c sc
    by (auto simp add: fill_database_def open_sink_def close_sink_def run_defs all_records_def map_concat comp_def)
qed

lemma fill_database_staged:
  assumes "\<not> csv_only a" "csv2db a"
  shows "fill_database d e a =
     seq (StartDriver (drv_name a) (db_name a) # MkTemp (tmp_name e) #
          Message (''Creating indermediate temporary CSV file '' @ quoted (tmp_name e) @ ''...'') #
          map WriteLine (all_records d e a) @
          [RewindFile, Message ''Converting intermediate temporary CSV file to data table...'',
           Message ''... please wait ...''], Inr ())
       (\<lambda>_. seq (load_statement e a)
          (\<lambda>sql. steps [emit (Execute sql),
                        if exec_ok e sql then ret ()
                        else fatal ''Converting CSV to data table failed! '',
                        emit CloseFile, emit CloseDriver]))"
proof -
  obtain s' where sc: "scan_rows d e a True (SQLPacketSize a) [0..<nrows a] [] =
     (concat (map (\<lambda>row. map WriteLine (row_records d e a row)) [0..<nrows a]), Inr s')"
    using scan_rows_csv by blast
  obtain t r where ls: "load_statement e a = (t, r)" by (cases "load_statement e a")
  have t: "t = []" using ls by (auto simp: load_statement_def run_defs split: if_splits)
  show ?thesis
  proof (cases r)
    case (Inl err)
    then show ?thesis using assms sc ls t
      by (simp add: fill_database_def open_sink_def close_sink_def run_defs all_records_def map_concat comp_def)
  next
    case (Inr sql)
    then show ?thesis using assms sc ls t
      by (cases "exec_ok e sql")
         (simp_all add: fill_database_def open_sink_def close_sink_def run_defs all_records_def map_concat comp_def)
  qed
qed


lemma statements_of_append [simp]:
  "statements_of (xs @ ys) = statements_of xs @ statements_of ys"
  by (induction xs rule: statements_of.induct) simp_all

lemma statements_of_Execute [simp]: "statements_of (map (\<lambda>x. Execute (f x)) xs) = map f xs"
  by (induction xs) simp_all

lemma lines_of_append [simp]: "lines_of (xs @ ys) = lines_of xs @ lines_of ys"
  by (induction xs rule: lines_of.induct) simp_all

lemma lines_of_WriteLine [simp]: "lines_of (map WriteLine ls) = ls"
  by (induction ls) simp_all

lemma concat_chunks: "concat (chunks n xs) = xs"
proof (induction n xs rule: chunks.induct)
  case (1 n xs)
  show ?case
  proof (cases "xs = [] \<or> n = 0")
    case True
    then show ?thesis by (subst chunks.simps) auto
  next
    case False
    then have "concat (chunks n (drop n xs)) = drop n xs" using 1 by simp
    then show ?thesis using False by (subst chunks.simps) simp
  qed
qed

lemma chunks_sizes:
  "0 < n \<Longrightarrow> xs \<noteq> [] \<Longrightarrow>
     (\<forall>c \<in> set (butlast (chunks n xs)). length c = n) \<and>
     length (last (chunks n xs)) = (if length xs mod n = 0 then n else length xs mod n)"
proof (induction n xs rule: chunks.induct)
  case (1 n xs)
  show ?case
  proof (cases "length xs \<le> n")
    case True
    then have c: "chunks n xs = [xs]" using 1(3) by (simp add: chunks_short)
    have "length xs mod n = (if length xs = n then 0 else length xs)"
      using True by simp
    then show ?thesis using c 1(3) by auto
  next
    case False
    then have ne: "drop n xs \<noteq> []" by simp
    have c: "chunks n xs = take n xs # chunks n (drop n xs)"
      using 1(2,3) by (subst chunks.simps) simp
    have cne: "chunks n (drop n xs) \<noteq> []"
      using ne by (subst chunks.simps) simp
    have ih: "(\<forall>c \<in> set (butlast (chunks n (drop n xs))). length c = n) \<and>
     length (last (chunks n (drop n xs))) =
       (if length (drop n xs) mod n = 0 then n else length (drop n xs) mod n)"
      using 1 ne by simp
    have m: "length (drop n xs) mod n = length xs mod n"
      using False by (simp add: le_mod_geq)
    show ?thesis using c cne ih m False by auto
  qed
qed

lemma chunks_one: "chunks (Suc 0) xs = map (\<lambda>x. [x]) xs"
proof (induction xs)
  case Nil
  then show ?case by simp
next
  case (Cons x xs)
  then show ?case by (subst chunks.simps) simp
qed

lemma cell_fields_opts [simp]:
  "cell_fields e (a\<lparr>drv_name := v\<rparr>) = cell_fields e a"
  "cell_fields e (a\<lparr>db_name := v\<rparr>) = cell_fields e a"
  "cell_fields e (a\<lparr>tbl_name := v\<rparr>) = cell_fields e a"
  "cell_fields e (a\<lparr>db_perf := p\<rparr>) = cell_fields e a"
  "cell_fields e (a\<lparr>ovr := b\<rparr>) = cell_fields e a"
  by (intro ext, simp add: cell_fields_def)+

lemma record_text_opts [simp]:
  "record_text e (a\<lparr>drv_name := v\<rparr>) = record_text e a"
  "record_text e (a\<lparr>db_name := v\<rparr>) = record_text e a"
  "record_text e (a\<lparr>tbl_name := v\<rparr>) = record_text e a"
  "record_text e (a\<lparr>db_perf := p\<rparr>) = record_text e a"
  "record_text e (a\<lparr>ovr := b\<rparr>) = record_text e a"
  by (intro ext, simp add: record_text_def record_head_def)+

lemma row_records_opts [simp]:
  "row_records d e (a\<lparr>drv_name := v\<rparr>) = row_records d e a"
  "row_records d e (a\<lparr>db_name := v\<rparr>) = row_records d e a"
  "row_records d e (a\<lparr>tbl_name := v\<rparr>) = row_records d e a"
  "row_records d e (a\<lparr>db_perf := p\<rparr>) = row_records d e a"
  "row_records d e (a\<lparr>ovr := b\<rparr>) = row_records d e a"
  by (intro ext, simp add: row_records_def eligible_def)+

lemma all_records_opts [simp]:
  "all_records d e (a\<lparr>drv_name := v\<rparr>) = all_records d e a"
  "all_records d e (a\<lparr>db_name := v\<rparr>) = all_records d e a"
  "all_records d e (a\<lparr>tbl_name := v\<rparr>) = all_records d e a"
  "all_records d e (a\<lparr>db_perf := p\<rparr>) = all_records d e a"
  "all_records d e (a\<lparr>ovr := b\<rparr>) = all_records d e a"
  by (simp_all add: all_records_def)

lemma add_record_db_perf [simp]:
  "add_record d e (a\<lparr>db_perf := p\<rparr>) c row col = add_record d e a c row col"
  by (rule ext) (simp add: add_record_def split: prod.splits)

lemma flush_packet_db_perf [simp]:
  "flush_packet e (a\<lparr>db_perf := p\<rparr>) c pk col = flush_packet e a c pk col"
  by (rule ext) (simp add: flush_packet_def)

lemma scan_cols_db_perf [simp]:
  "scan_cols d e (a\<lparr>db_perf := p\<rparr>) c pk row cols = scan_cols d e a c pk row cols"
proof (induction cols)
  case Nil
  show ?case by (rule ext) simp
next
  case (Cons col cols)
  show ?case by (rule ext) (simp add: Cons)
qed

lemma scan_rows_db_perf [simp]:
  "scan_rows d e (a\<lparr>db_perf := p\<rparr>) c pk rows = scan_rows d e a c pk rows"
proof (induction rows)
  case Nil
  show ?case by (rule ext) simp
next
  case (Cons row rows)
  show ?case by (rule ext) (simp add: Cons)
qed

lemma lines_of_load [simp]:
  "lines_of (fst (seq (load_statement e a)
          (\<lambda>sql. steps [emit (Execute sql),
                        if exec_ok e sql then ret ()
                        else fatal ''Converting CSV to data table failed! '',
                        emit CloseFile, emit CloseDriver]))) = []"
  by (simp add: load_statement_def run_defs)

lemmas record_simps =
  row_records_def eligible_def record_text_def record_head_def cell_fields_def quoted_def
  show_int_def show_nat.simps digit_char_def demo_env_def demo_args_def demo_fmt_def

lemma demo_row0:
  "row_records (-999) demo_env demo_args 0 = [''100,200,25,'A',7,-80.00,'hata',0.00'']"
  and demo_row1:
  "row_records (-999) demo_env demo_args (Suc 0) = [''100,175,25,'A',7,-100.00,'hata',0.00'']"
  by (simp_all add: record_simps)

lemma demo_flags: "\<not> csv_only demo_args" "\<not> csv2db demo_args" "SQLPacketSize demo_args = 2"
  by (simp_all add: csv_only_def csv2db_def SQLPacketSize_def eff_db_perf_def demo_args_def)

lemma demo_rows: "[0..<nrows demo_args] = [0, Suc 0]"
  by (simp add: demo_args_def numeral_2_eq_2)

lemma demo_records:
  "all_records (-999) demo_env demo_args =
     [''100,200,25,'A',7,-80.00,'hata',0.00'', ''100,175,25,'A',7,-100.00,'hata',0.00'']"
  by (simp add: all_records_def demo_rows demo_row0 demo_row1)

lemma demo_ok: "begin_ok demo_env" "commit_ok demo_env" "\<forall>q. exec_ok demo_env q"
  "open_ok demo_env" "file_exists demo_env \<longrightarrow> ov"
  by (simp_all add: demo_env_def)

subsection \<open>Claims on fill_database\<close>

text \<open>
  Claim C4, as the code has it. On a driver other than \<^verbatim>\<open>csv\<close>, \<^verbatim>\<open>dbf\<close> and
  \<^verbatim>\<open>sqlite\<close>, with a packet size \<open>N\<close> from 1 to 98 and every database call
  succeeding, the statement buffer is flushed when it holds \<open>N\<close> records and at the
  last column of every raster row. So the statements executed are, raster row by
  raster row, the records of the row cut into pieces of \<open>N\<close>: a row with \<open>r\<close> records
  gives \<open>\<lceil>r / N\<rceil>\<close> statements, each of \<open>N\<close> records but the last, which has
  \<open>r mod N\<close> of them (or \<open>N\<close> when that is 0), and the number of statements of the
  pass is the sum of \<open>\<lceil>r / N\<rceil>\<close> over the raster rows.
\<close>

theorem batched_insert_statements:
  assumes "drv_name a \<notin> {''csv'', ''dbf'', ''sqlite''}"
    and "1 \<le> db_perf a" and "db_perf a \<le> 98"
    and "begin_ok e" and "commit_ok e" and "\<forall>q. exec_ok e q"
  shows "snd (fill_database dbmin e a) = Inr () \<and>
     statements_of (fst (fill_database dbmin e a)) =
       concat (map (\<lambda>row. map (insert_sql (tbl_name a))
                              (chunks (nat (db_perf a)) (row_records dbmin e a row)))
                 [0..<nrows a]) \<and>
     length (statements_of (fst (fill_database dbmin e a))) =
       sum_list (map (\<lambda>row. (length (eligible dbmin a row) + nat (db_perf a) - 1) div
                              nat (db_perf a)) [0..<nrows a]) \<and>
     (\<forall>row. concat (chunks (nat (db_perf a)) (row_records dbmin e a row)) =
              row_records dbmin e a row \<and>
            (\<forall>c \<in> set (butlast (chunks (nat (db_perf a)) (row_records dbmin e a row))).
               length c = nat (db_perf a)) \<and>
            (eligible dbmin a row \<noteq> [] \<longrightarrow>
             length (last (chunks (nat (db_perf a)) (row_records dbmin e a row))) =
               (if length (eligible dbmin a row) mod nat (db_perf a) = 0 then nat (db_perf a)
                else length (eligible dbmin a row) mod nat (db_perf a))))"
proof -
  define N where "N = nat (db_perf a)"
  have N: "0 < N" using assms(2) by (simp add: N_def)
  have f1: "\<not> csv_only a" using assms(1) by (simp add: csv_only_def)
  have ef: "eff_db_perf a = db_perf a" using assms(1) by (simp add: eff_db_perf_def)
  have f2: "\<not> csv2db a" using f1 ef assms(2,3) by (simp add: csv2db_def)
  have f3: "SQLPacketSize a = N" using ef assms(2,3) by (simp add: SQLPacketSize_def N_def)
  have run: "fill_database dbmin e a =
     (StartDriver (drv_name a) (db_name a) # BeginTransaction #
      map (\<lambda>rs. Execute (insert_sql (tbl_name a) rs))
        (concat (map (\<lambda>row. chunks N (row_records dbmin e a row)) [0..<nrows a])) @
      [CommitTransaction, CloseDriver], Inr ())"
    using fill_database_insert[OF f1 f2 _ assms(4,5,6), of dbmin] N f3 by simp
  have "statements_of (fst (fill_database dbmin e a)) =
       map (insert_sql (tbl_name a))
         (concat (map (\<lambda>row. chunks N (row_records dbmin e a row)) [0..<nrows a]))"
    unfolding run by simp
  then have st: "statements_of (fst (fill_database dbmin e a)) =
       concat (map (\<lambda>row. map (insert_sql (tbl_name a)) (chunks N (row_records dbmin e a row)))
                 [0..<nrows a])"
    by (simp add: map_concat comp_def)
  have len: "length (statements_of (fst (fill_database dbmin e a))) =
       sum_list (map (\<lambda>row. (length (eligible dbmin a row) + N - 1) div N) [0..<nrows a])"
    unfolding st by (simp add: length_concat comp_def length_chunks[OF N] row_records_def)
  have pieces: "\<forall>row. concat (chunks N (row_records dbmin e a row)) = row_records dbmin e a row \<and>
            (\<forall>c \<in> set (butlast (chunks N (row_records dbmin e a row))). length c = N) \<and>
            (eligible dbmin a row \<noteq> [] \<longrightarrow>
             length (last (chunks N (row_records dbmin e a row))) =
               (if length (eligible dbmin a row) mod N = 0 then N
                else length (eligible dbmin a row) mod N))"
  proof
    fix row
    show "concat (chunks N (row_records dbmin e a row)) = row_records dbmin e a row \<and>
            (\<forall>c \<in> set (butlast (chunks N (row_records dbmin e a row))). length c = N) \<and>
            (eligible dbmin a row \<noteq> [] \<longrightarrow>
             length (last (chunks N (row_records dbmin e a row))) =
               (if length (eligible dbmin a row) mod N = 0 then N
                else length (eligible dbmin a row) mod N))"
    proof (cases "eligible dbmin a row = []")
      case True
      then show ?thesis by (simp add: row_records_def)
    next
      case False
      then have "row_records dbmin e a row \<noteq> []" by (simp add: row_records_def)
      from chunks_sizes[OF N this] show ?thesis
        by (simp add: concat_chunks) (simp add: row_records_def)
    qed
  qed
  show ?thesis using run st len pieces unfolding N_def by simp
qed

theorem batched_insert_statements_witness:
  "drv_name demo_args \<notin> {''csv'', ''dbf'', ''sqlite''} \<and>
   1 \<le> db_perf demo_args \<and> db_perf demo_args \<le> 98 \<and>
   begin_ok demo_env \<and> commit_ok demo_env \<and> (\<forall>q. exec_ok demo_env q) \<and>
   snd (fill_database (-999) demo_env demo_args) = Inr () \<and>
   statements_of (fst (fill_database (-999) demo_env demo_args)) =
     [''INSERT INTO maxpower VALUES (100,200,25,'A',7,-80.00,'hata',0.00)'',
      ''INSERT INTO maxpower VALUES (100,175,25,'A',7,-100.00,'hata',0.00)'']"
proof -
  have h1: "drv_name demo_args \<notin> {''csv'', ''dbf'', ''sqlite''}"
    and h2: "1 \<le> db_perf demo_args" and h3: "db_perf demo_args \<le> 98"
    by (simp_all add: demo_args_def)
  have t: "tbl_name demo_args = ''maxpower''" "nat (db_perf demo_args) = 2"
    by (simp_all add: demo_args_def)
  from batched_insert_statements[OF h1 h2 h3 demo_ok(1,2,3), of "-999"]
  have "snd (fill_database (-999) demo_env demo_args) = Inr ()"
    and "statements_of (fst (fill_database (-999) demo_env demo_args)) =
       concat (map (\<lambda>row. map (insert_sql (tbl_name demo_args))
                              (chunks (nat (db_perf demo_args)) (row_records (-999) demo_env demo_args row)))
                 [0..<nrows demo_args])"
    by simp_all
  then show ?thesis using h1 h2 h3 demo_ok(1,2,3)
    by (simp add: demo_rows demo_row0 demo_row1 t chunks_short)
qed


text \<open>
  The claim as the specification states it fails: in the example both points are
  written, so \<open>R = 2\<close>, and the packet size is \<open>N = 2\<close>, so \<open>\<lceil>R / N\<rceil> = 1\<close>; but the
  two points lie in two raster rows, and two statements are executed.
\<close>

theorem statement_flushed_at_end_of_raster_row:
  "length (all_records (-999) demo_env demo_args) = 2 \<and> SQLPacketSize demo_args = 2 \<and>
   (2 + 2 - 1) div 2 = (1::nat) \<and>
   length (statements_of (fst (fill_database (-999) demo_env demo_args))) = 2"
proof -
  have "fill_database (-999) demo_env demo_args =
     (StartDriver (drv_name demo_args) (db_name demo_args) # BeginTransaction #
      map (\<lambda>rs. Execute (insert_sql (tbl_name demo_args) rs))
        (concat (map (\<lambda>row. chunks (SQLPacketSize demo_args) (row_records (-999) demo_env demo_args row))
           [0..<nrows demo_args])) @
      [CommitTransaction, CloseDriver], Inr ())"
    using demo_flags demo_ok by (intro fill_database_insert) simp_all
  then show ?thesis
    by (simp add: demo_rows demo_row0 demo_row1 demo_flags demo_records chunks_short)
qed

text \<open>
  Claim C6. With the same arrays, region and \<open>ncells\<close>, the lines written to the
  temporary file of the fast mode (a database driver with \<^verbatim>\<open>dbperf=99\<close>) and the
  lines written to the CSV file of the driver \<^verbatim>\<open>csv\<close> are the same list: the records
  of all points whose strongest power is not \<^verbatim>\<open>DB_MIN_VAL\<close>, in the order of the
  scan.
\<close>

theorem staged_file_equals_flat_file:
  assumes "drv_name a = ''csv''" and "file_exists e \<longrightarrow> ovr a" and "open_ok e"
    and "drv \<notin> {''csv'', ''dbf'', ''sqlite''}" and "p < 0 \<or> 99 \<le> p"
  shows "lines_of (fst (fill_database dbmin e a)) = all_records dbmin e a \<and>
         lines_of (fst (fill_database dbmin e
            (a\<lparr>drv_name := drv, db_name := db, tbl_name := tbl, db_perf := p, ovr := ov\<rparr>))) =
           all_records dbmin e a"
proof -
  let ?b = "a\<lparr>drv_name := drv, db_name := db, tbl_name := tbl, db_perf := p, ovr := ov\<rparr>"
  have "csv_only a" using assms(1) by (simp add: csv_only_def)
  then have flat: "lines_of (fst (fill_database dbmin e a)) = all_records dbmin e a"
    using fill_database_csv[of a e dbmin] assms(2,3) by simp
  have b1: "\<not> csv_only ?b" using assms(4) by (simp add: csv_only_def)
  have "eff_db_perf ?b = p" using assms(4) by (simp add: eff_db_perf_def)
  then have b2: "csv2db ?b" using b1 assms(5) by (auto simp: csv2db_def)
  have "lines_of (fst (fill_database dbmin e ?b)) = all_records dbmin e ?b"
    unfolding fill_database_staged[OF b1 b2] by simp
  then show ?thesis using flat by simp
qed

theorem staged_file_equals_flat_file_witness:
  "drv_name (demo_args\<lparr>drv_name := ''csv''\<rparr>) = ''csv'' \<and> open_ok demo_env \<and>
   ''mysql'' \<notin> {''csv'', ''dbf'', ''sqlite''} \<and> (99::int) \<le> 99 \<and>
   lines_of (fst (fill_database (-999) demo_env (demo_args\<lparr>drv_name := ''csv''\<rparr>))) =
     [''100,200,25,'A',7,-80.00,'hata',0.00'', ''100,175,25,'A',7,-100.00,'hata',0.00''] \<and>
   lines_of (fst (fill_database (-999) demo_env
      (demo_args\<lparr>drv_name := ''mysql'', db_name := ''raplat'', tbl_name := ''maxpower'',
                 db_perf := 99, ovr := False\<rparr>))) =
     [''100,200,25,'A',7,-80.00,'hata',0.00'', ''100,175,25,'A',7,-100.00,'hata',0.00'']"
proof -
  have h1: "drv_name (demo_args\<lparr>drv_name := ''csv''\<rparr>) = ''csv''" by simp
  have h2: "file_exists demo_env \<longrightarrow> ovr (demo_args\<lparr>drv_name := ''csv''\<rparr>)"
    by (simp add: demo_env_def)
  have h4: "''mysql'' \<notin> {''csv'', ''dbf'', ''sqlite''}" by simp
  have h5: "(99::int) < 0 \<or> 99 \<le> (99::int)" by simp
  have r: "all_records (-999) demo_env (demo_args\<lparr>drv_name := ''csv''\<rparr>) =
      all_records (-999) demo_env demo_args"
    by simp
  have u: "demo_args\<lparr>drv_name := ''csv'', drv_name := ''mysql'', db_name := ''raplat'',
      tbl_name := ''maxpower'', db_perf := 99, ovr := False\<rparr> =
      demo_args\<lparr>drv_name := ''mysql'', db_name := ''raplat'', tbl_name := ''maxpower'',
                 db_perf := 99, ovr := False\<rparr>"
    by simp
  from staged_file_equals_flat_file[OF h1 h2 demo_ok(4) h4 h5,
      where dbmin = "-999" and db = "''raplat''" and tbl = "''maxpower''" and ov = False]
  show ?thesis using demo_ok(4) unfolding r u demo_records by simp
qed

text \<open>
  Claim C9. For the drivers \<^verbatim>\<open>dbf\<close> and \<^verbatim>\<open>sqlite\<close> the value of \<^verbatim>\<open>db_perf\<close> has no
  effect: \<^verbatim>\<open>fill_database\<close> runs as with \<^verbatim>\<open>db_perf = 1\<close>, also for 99. It takes the
  insert mode (\<^verbatim>\<open>csv2db = 0\<close>) with \<^verbatim>\<open>SQLPacketSize = 1\<close>, and when the database
  calls succeed it ends without an error after one transaction with one
  single-record \<^verbatim>\<open>INSERT\<close> per written point and no file.
\<close>

theorem dbf_sqlite_row_at_a_time:
  assumes "drv_name a = ''dbf'' \<or> drv_name a = ''sqlite''"
  shows "fill_database dbmin e a = fill_database dbmin e (a\<lparr>db_perf := 1\<rparr>) \<and>
     \<not> csv_only a \<and> \<not> csv2db a \<and> SQLPacketSize a = 1 \<and>
     (begin_ok e \<and> commit_ok e \<and> (\<forall>q. exec_ok e q) \<longrightarrow>
        fill_database dbmin e a =
          (StartDriver (drv_name a) (db_name a) # BeginTransaction #
           map (\<lambda>r. Execute (insert_sql (tbl_name a) [r])) (all_records dbmin e a) @
           [CommitTransaction, CloseDriver], Inr ()))"
proof -
  have f1: "\<not> csv_only a" using assms by (auto simp: csv_only_def)
  have ef: "eff_db_perf a = 1" using assms by (auto simp: eff_db_perf_def)
  have f2: "\<not> csv2db a" using f1 ef by (simp add: csv2db_def)
  have f3: "SQLPacketSize a = 1" using ef by (simp add: SQLPacketSize_def)
  have ef': "eff_db_perf (a\<lparr>db_perf := 1\<rparr>) = 1" by (simp add: eff_db_perf_def)
  have same: "fill_database dbmin e a = fill_database dbmin e (a\<lparr>db_perf := 1\<rparr>)"
    using f1 ef ef'
    by (simp add: fill_database_def open_sink_def close_sink_def csv2db_def csv_only_def
        SQLPacketSize_def load_statement_def)
  have ok: "begin_ok e \<and> commit_ok e \<and> (\<forall>q. exec_ok e q) \<longrightarrow>
        fill_database dbmin e a =
          (StartDriver (drv_name a) (db_name a) # BeginTransaction #
           map (\<lambda>r. Execute (insert_sql (tbl_name a) [r])) (all_records dbmin e a) @
           [CommitTransaction, CloseDriver], Inr ())"
  proof
    assume h: "begin_ok e \<and> commit_ok e \<and> (\<forall>q. exec_ok e q)"
    have "fill_database dbmin e a =
     (StartDriver (drv_name a) (db_name a) # BeginTransaction #
      map (\<lambda>rs. Execute (insert_sql (tbl_name a) rs))
        (concat (map (\<lambda>row. chunks (SQLPacketSize a) (row_records dbmin e a row)) [0..<nrows a])) @
      [CommitTransaction, CloseDriver], Inr ())"
      using f1 f2 f3 h by (intro fill_database_insert) simp_all
    moreover have "concat (map (\<lambda>row. chunks (Suc 0) (row_records dbmin e a row)) [0..<nrows a]) =
        map (\<lambda>r. [r]) (all_records dbmin e a)"
      by (simp add: chunks_one all_records_def map_concat comp_def)
    ultimately show "fill_database dbmin e a =
          (StartDriver (drv_name a) (db_name a) # BeginTransaction #
           map (\<lambda>r. Execute (insert_sql (tbl_name a) [r])) (all_records dbmin e a) @
           [CommitTransaction, CloseDriver], Inr ())"
      using f3 by (simp add: comp_def)
  qed
  show ?thesis using same f1 f2 f3 ok by blast
qed

theorem dbf_sqlite_row_at_a_time_witness:
  "drv_name (demo_args\<lparr>drv_name := ''sqlite'', db_perf := 99\<rparr>) = ''sqlite'' \<and>
   begin_ok demo_env \<and> commit_ok demo_env \<and> (\<forall>q. exec_ok demo_env q) \<and>
   fill_database (-999) demo_env (demo_args\<lparr>drv_name := ''sqlite'', db_perf := 99\<rparr>) =
     ([StartDriver ''sqlite'' ''raplat'', BeginTransaction,
       Execute ''INSERT INTO maxpower VALUES (100,200,25,'A',7,-80.00,'hata',0.00)'',
       Execute ''INSERT INTO maxpower VALUES (100,175,25,'A',7,-100.00,'hata',0.00)'',
       CommitTransaction, CloseDriver], Inr ())"
proof -
  let ?a = "demo_args\<lparr>drv_name := ''sqlite'', db_perf := 99\<rparr>"
  have h: "drv_name ?a = ''dbf'' \<or> drv_name ?a = ''sqlite''" by simp
  have r: "all_records (-999) demo_env ?a = all_records (-999) demo_env demo_args"
    by simp
  have n: "db_name ?a = ''raplat''" "tbl_name ?a = ''maxpower''" "drv_name ?a = ''sqlite''"
    by (simp_all add: demo_args_def)
  from dbf_sqlite_row_at_a_time[OF h, of "-999" demo_env] demo_ok(1,2,3)
  have "fill_database (-999) demo_env ?a =
          (StartDriver (drv_name ?a) (db_name ?a) # BeginTransaction #
           map (\<lambda>r. Execute (insert_sql (tbl_name ?a) [r])) (all_records (-999) demo_env ?a) @
           [CommitTransaction, CloseDriver], Inr ())"
    by blast
  then have "fill_database (-999) demo_env ?a =
     ([StartDriver ''sqlite'' ''raplat'', BeginTransaction,
       Execute ''INSERT INTO maxpower VALUES (100,200,25,'A',7,-80.00,'hata',0.00)'',
       Execute ''INSERT INTO maxpower VALUES (100,175,25,'A',7,-100.00,'hata',0.00)'',
       CommitTransaction, CloseDriver], Inr ())"
    unfolding r demo_records n by simp
  then show ?thesis using demo_ok(1,2,3) by simp
qed

subsection \<open>The stages of main\<close>

lemma length_cell_columns: "length (snd (cell_columns i st)) = length (snd st)"
  by (cases st) (simp add: cell_columns_def)

lemma length_fold_cell_columns: "length (snd (fold cell_columns is st)) = length (snd st)"
  by (induction "is" arbitrary: st) (simp_all add: length_cell_columns)

lemma length_table_columns: "length (table_columns K) = 4 * K + 4"
  by (simp add: table_columns_def Let_def length_fold_cell_columns)

lemma tables_of_append [simp]: "tables_of (xs @ ys) = tables_of xs @ tables_of ys"
  by (induction xs rule: tables_of.induct) simp_all

lemma rows_of_append [simp]: "rows_of (xs @ ys) = rows_of xs @ rows_of ys"
  by (induction xs rule: rows_of.induct) simp_all

lemma fst_seq: "fst (seq r f) = fst r @ (case snd r of Inl err \<Rightarrow> [] | Inr x \<Rightarrow> fst (f x))"
  by (cases r) (auto simp: seq_def split: sum.splits prod.splits)

lemma snd_seq: "snd (seq r f) = (case snd r of Inl err \<Rightarrow> Inl err | Inr x \<Rightarrow> snd (f x))"
  by (cases r) (auto simp: seq_def split: sum.splits prod.splits)

lemma tables_of_seq:
  "tables_of (fst r) = [] \<Longrightarrow> (\<And>x. tables_of (fst (f x)) = []) \<Longrightarrow> tables_of (fst (seq r f)) = []"
  by (simp add: fst_seq split: sum.splits)

lemma tables_of_steps:
  "(\<And>r. r \<in> set rs \<Longrightarrow> tables_of (fst r) = []) \<Longrightarrow> tables_of (fst (steps rs)) = []"
proof (induction rs)
  case Nil
  then show ?case by simp
next
  case (Cons r rs)
  then show ?case by (simp add: steps.simps tables_of_seq)
qed

lemma tables_of_basic [simp]:
  "tables_of (fst (ret x)) = []" "tables_of (fst (fatal m)) = []"
  "tables_of (fst undefined_behaviour) = []"
  by (simp_all add: run_defs)

lemma tables_of_scan_cols [simp]: "tables_of (fst (scan_cols d e a c pk row cols st)) = []"
proof (induction cols arbitrary: st)
  case Nil
  then show ?case by simp
next
  case (Cons col cols)
  obtain sql n where st: "st = (sql, n)" by (cases st)
  have "tables_of (fst (seq (add_record d e a c row col st) (flush_packet e a c pk col))) = []"
    unfolding st by (intro tables_of_seq) (auto simp: add_record_def flush_packet_def run_defs)
  then show ?case using Cons by (simp add: tables_of_seq)
qed

lemma tables_of_scan_rows [simp]: "tables_of (fst (scan_rows d e a c pk rows sql)) = []"
  by (induction rows arbitrary: sql) (simp_all add: tables_of_seq)

lemma tables_of_fill_database [simp]: "tables_of (fst (fill_database d e a)) = []"
  unfolding fill_database_def open_sink_def close_sink_def load_statement_def
  by (intro tables_of_steps tables_of_seq) (auto simp: run_defs intro!: tables_of_steps tables_of_seq)

lemma tables_of_open_maps [simp]: "tables_of (fst (open_maps e cells)) = []"
  by (induction cells) (auto simp: run_defs intro!: tables_of_steps)

lemma tables_of_main_open [simp]: "tables_of (fst (main_open e c cells)) = []"
  unfolding main_open_def
  by (intro tables_of_steps) (auto simp: run_defs)

lemma tables_of_put_rows:
  "tables_of (fst (steps (map (\<lambda>row. emit (PutRow (f row))) rows @ [emit CloseRaster]))) = []"
  by (intro tables_of_steps) (auto simp: run_defs)

lemma tables_of_main_output [simp]: "tables_of (fst (main_output d e c w P I S)) = []"
  unfolding main_output_def
  by (intro tables_of_seq tables_of_put_rows)
     (auto simp: select_output_def run_defs split: option.splits)

lemma tables_of_main_persist [simp]: "tables_of (fst (main_persist d e c w cells K P I ecno)) = []"
  by (simp add: main_persist_def steps.simps fst_seq run_defs split: sum.splits)


lemma create_table_tables:
  "set (tables_of (fst (create_table e drv db tbl n ov))) \<subseteq> {(tbl, table_columns (nat n))}"
  "snd (create_table e drv db tbl n ov) = Inr u \<Longrightarrow>
     tables_of (fst (create_table e drv db tbl n ov)) = [(tbl, table_columns (nat n))]"
  by (auto simp: create_table_def steps.simps seq_def run_defs split: if_splits)

lemma main_setup_tables:
  "set (tables_of (fst (main_setup e c cells))) \<subseteq>
     {(tbl_name c, table_columns (nat (clamp_cell_num (cell_num c) (length cells))))}"
proof -
  have "tables_of (fst (main_setup e c cells)) = [] \<or>
     tables_of (fst (main_setup e c cells)) =
       tables_of (fst (create_table e (drv_name c) (db_name c) (tbl_name c)
                         (clamp_cell_num (cell_num c) (length cells)) (ovr c)))"
    by (auto simp: main_setup_def steps.simps fst_seq snd_seq run_defs split: sum.splits)
  then show ?thesis
    using create_table_tables(1)[of e "drv_name c" "db_name c" "tbl_name c"
        "clamp_cell_num (cell_num c) (length cells)" "ovr c"]
    by auto
qed

lemma main_setup_result:
  "snd (main_setup e c cells) = Inr n \<Longrightarrow>
     n = (if drv_name c = ''none'' then 1 else clamp_cell_num (cell_num c) (length cells))"
  by (auto simp: main_setup_def steps.simps snd_seq run_defs split: sum.splits if_splits)

lemma main_setup_created:
  assumes "snd (main_setup e c cells) = Inr n" and "drv_name c \<noteq> ''none''" "drv_name c \<noteq> ''csv''"
  shows "tables_of (fst (main_setup e c cells)) = [(tbl_name c, table_columns (nat n))]"
proof -
  let ?ct = "create_table e (drv_name c) (db_name c) (tbl_name c)
                         (clamp_cell_num (cell_num c) (length cells)) (ovr c)"
  have n: "n = clamp_cell_num (cell_num c) (length cells)"
    using main_setup_result[OF assms(1)] assms(2) by simp
  have ok: "snd ?ct = Inr ()"
    using assms by (auto simp: main_setup_def steps.simps snd_seq run_defs split: sum.splits if_splits)
  have "tables_of (fst (main_setup e c cells)) = tables_of (fst ?ct)"
    using assms by (auto simp: main_setup_def steps.simps fst_seq snd_seq run_defs split: sum.splits if_splits)
  then show ?thesis using create_table_tables(2)[OF ok] n by simp
qed

lemma main_setup_clamped:
  "int (length cells) < cell_num c \<Longrightarrow>
     main_setup e (c\<lparr>cell_num := int (length cells)\<rparr>) cells = main_setup e c cells"
  by (simp add: main_setup_def clamp_cell_num_def)

lemma main_stages_cell_num [simp]:
  "main_open e (c\<lparr>cell_num := x\<rparr>) = main_open e c"
  "select_output e (c\<lparr>cell_num := x\<rparr>) = select_output e c"
  "out_cell d (c\<lparr>cell_num := x\<rparr>) = out_cell d c"
  "persist_args (c\<lparr>cell_num := x\<rparr>) = persist_args c"
  by (intro ext, simp add: main_open_def select_output_def out_cell_def persist_args_def)+

lemma main_output_cell_num [simp]:
  "main_output d e (c\<lparr>cell_num := x\<rparr>) = main_output d e c"
  by (intro ext) (simp add: main_output_def)

lemma main_persist_cell_num [simp]:
  "main_persist d e (c\<lparr>cell_num := x\<rparr>) = main_persist d e c"
  by (intro ext) (simp add: main_persist_def)

lemma main_tail_cell_num [simp]:
  "main_tail d e (c\<lparr>cell_num := x\<rparr>) = main_tail d e c"
  by (intro ext) (simp add: main_tail_def)

lemma main_model_tables:
  "tables_of (fst (main_model d e c w cells)) = tables_of (fst (main_setup e c cells))"
  by (simp add: main_model_def main_tail_def fst_seq steps.simps run_defs split: sum.splits)


lemma demo_setup:
  "main_setup demo_env (demo_cfg\<lparr>drv_name := drv\<rparr>) demo_cells =
     (if drv = ''none'' then ([ReadFile ''cells.txt'', Message ''Processing 1 cells...''], Inr 1)
      else if drv = ''csv'' then ([ReadFile ''cells.txt'', Message ''Processing 1 cells...''], Inr 1)
      else ([ReadFile ''cells.txt'', Message ''Processing 1 cells...'',
             TableExists drv ''raplat'' ''maxpower'', SetConnection drv ''raplat'',
             StartDriver drv ''raplat'', CreateTable ''maxpower'' (table_columns 1), CloseDriver],
            Inr 1))"
  by (simp add: main_setup_def create_table_def clamp_cell_num_def steps.simps run_defs
      demo_env_def demo_cfg_def demo_cells_def show_nat.simps digit_char_def)


lemma steps_emits:
  "steps (map (\<lambda>x. emit (f x)) xs @ [emit ev]) = (map f xs @ [ev], Inr ())"
  by (induction xs) (simp_all add: steps.simps run_defs)

lemma select_output_fst [simp]: "fst (select_output e c P I S) = []"
  by (simp add: select_output_def run_defs split: option.splits)

lemma main_output_success:
  assumes "snd (main_output d e c w P I S) = Inr ecno"
  shows "\<exists>sel. select_output e c P I S = ([], Inr sel) \<and>
     fst (main_output d e c w P I S) =
       map (\<lambda>row. PutRow (map (\<lambda>col. out_cell d c (fst sel) (snd sel) (P ! 0) (row * win_cols w + col))
                             [0..<win_cols w])) [0..<win_rows w] @ [CloseRaster] \<and>
     ecno = ecno_of P S (win_rows w * win_cols w)"
proof -
  obtain t r where so: "select_output e c P I S = (t, r)" by (cases "select_output e c P I S")
  have t: "t = []" using select_output_fst[of e c P I S] so by simp
  show ?thesis
  proof (cases r)
    case (Inl err)
    then show ?thesis using assms so by (simp add: main_output_def)
  next
    case (Inr sel)
    then show ?thesis using assms so t
      by (simp add: main_output_def steps_emits ret_def)
  qed
qed

lemma main_output_failure:
  "snd (main_output d e c w P I S) \<noteq> Inl (Fatal (unsupported_msg drv))"
proof -
  have "snd (select_output e c P I S) \<noteq> Inl (Fatal (unsupported_msg drv))"
    by (simp add: select_output_def unsupported_msg_def quoted_def run_defs split: option.splits)
  moreover have "snd (main_output d e c w P I S) =
      (case snd (select_output e c P I S) of Inl err \<Rightarrow> Inl err
       | Inr sel \<Rightarrow> Inr (ecno_of P S (win_rows w * win_cols w)))"
    by (simp add: main_output_def snd_seq steps_emits ret_def split: sum.splits)
  ultimately show ?thesis by (auto split: sum.splits)
qed

lemma open_maps_failure: "snd (open_maps e cells) \<noteq> Inl (Fatal (unsupported_msg drv))"
proof (induction cells)
  case Nil
  then show ?case by (simp add: run_defs)
next
  case (Cons cl cls)
  then show ?case
    by (cases "open_maps e cls")
       (auto simp: steps.simps seq_def run_defs unsupported_msg_def split: sum.splits)
qed

lemma main_open_failure: "snd (main_open e c cells) \<noteq> Inl (Fatal (unsupported_msg drv))"
  using open_maps_failure[of e cells drv]
  by (cases "open_maps e cells")
     (auto simp: main_open_def steps.simps seq_def run_defs unsupported_msg_def split: sum.splits)

lemma create_table_failure:
  "snd (create_table e dr db tbl n ov) \<noteq> Inl (Fatal (unsupported_msg drv))"
  by (simp add: create_table_def steps.simps seq_def run_defs unsupported_msg_def)

lemma main_setup_failure: "snd (main_setup e c cells) \<noteq> Inl (Fatal (unsupported_msg drv))"
  using create_table_failure[of e "drv_name c" "db_name c" "tbl_name c"
      "clamp_cell_num (cell_num c) (length cells)" "ovr c" drv]
  by (cases "create_table e (drv_name c) (db_name c) (tbl_name c)
        (clamp_cell_num (cell_num c) (length cells)) (ovr c)")
     (auto simp: main_setup_def steps.simps seq_def run_defs unsupported_msg_def split: sum.splits)

lemma fill_database_unsupported:
  assumes "drv_name a \<notin> {''csv'', ''dbf'', ''sqlite'', ''mysql'', ''pg''}"
    and "db_perf a < 0 \<or> 99 \<le> db_perf a"
  shows "fill_database d e a =
     (StartDriver (drv_name a) (db_name a) # MkTemp (tmp_name e) #
      Message (''Creating indermediate temporary CSV file '' @ quoted (tmp_name e) @ ''...'') #
      map WriteLine (all_records d e a) @
      [RewindFile, Message ''Converting intermediate temporary CSV file to data table...'',
       Message ''... please wait ...''],
      Inl (Fatal (unsupported_msg (drv_name a))))"
proof -
  have b1: "\<not> csv_only a" using assms(1) by (simp add: csv_only_def)
  have "eff_db_perf a = db_perf a" using assms(1) by (simp add: eff_db_perf_def)
  then have b2: "csv2db a" using b1 assms(2) by (auto simp: csv2db_def)
  have "load_statement e a = ([], Inl (Fatal (unsupported_msg (drv_name a))))"
    using assms(1) by (simp add: load_statement_def unsupported_msg_def run_defs)
  then show ?thesis unfolding fill_database_staged[OF b1 b2] by simp
qed


lemma rows_of_PutRow [simp]: "rows_of (map (\<lambda>x. PutRow (f x)) xs) = map f xs"
  by (induction xs) simp_all

lemma persist_args_opts [simp]:
  "drv_name (persist_args c w cells K P I ecno) = drv_name c"
  "db_name (persist_args c w cells K P I ecno) = db_name c"
  "tbl_name (persist_args c w cells K P I ecno) = tbl_name c"
  "db_perf (persist_args c w cells K P I ecno) = db_perf c"
  "ovr (persist_args c w cells K P I ecno) = ovr c"
  "nrows (persist_args c w cells K P I ecno) = win_rows w"
  "ncols (persist_args c w cells K P I ecno) = win_cols w"
  "arr_power (persist_args c w cells K P I ecno) = P"
  "arr_EcNo (persist_args c w cells K P I ecno) = ecno"
  by (simp_all add: persist_args_def)

lemma main_persist_unsupported:
  assumes "drv_name c \<notin> {''none'', ''csv'', ''dbf'', ''sqlite'', ''mysql'', ''pg''}"
    and "db_perf c < 0 \<or> 99 \<le> db_perf c"
  shows "main_persist d e c w cells K P I ecno =
     (Message (''Writing MaxPower data in table '' @ quoted (tbl_name c) @ ''...'') #
      StartDriver (drv_name c) (db_name c) # MkTemp (tmp_name e) #
      Message (''Creating indermediate temporary CSV file '' @ quoted (tmp_name e) @ ''...'') #
      map WriteLine (all_records d e (persist_args c w cells K P I ecno)) @
      [RewindFile, Message ''Converting intermediate temporary CSV file to data table...'',
       Message ''... please wait ...''],
      Inl (Fatal (unsupported_msg (drv_name c))))"
proof -
  have "fill_database d e (persist_args c w cells K P I ecno) =
     (StartDriver (drv_name c) (db_name c) # MkTemp (tmp_name e) #
      Message (''Creating indermediate temporary CSV file '' @ quoted (tmp_name e) @ ''...'') #
      map WriteLine (all_records d e (persist_args c w cells K P I ecno)) @
      [RewindFile, Message ''Converting intermediate temporary CSV file to data table...'',
       Message ''... please wait ...''],
      Inl (Fatal (unsupported_msg (drv_name c))))"
    using fill_database_unsupported[of "persist_args c w cells K P I ecno" d e] assms by simp
  then show ?thesis using assms(1) by (simp add: main_persist_def steps.simps run_defs)
qed


lemma demo_open:
  "main_open demo_env (demo_cfg\<lparr>drv_name := drv, db_perf := p\<rparr>) demo_cells =
     ([OpenRaster ''best'', Message ''Sorting receive power values'', ReadRaster ''lossA'',
       Message ''Finished sorting receive power values''], Inr ())"
  by (simp add: main_open_def steps.simps run_defs demo_env_def demo_cfg_def demo_cells_def)

lemma demo_states:
  "point_states (-999) demo_env demo_cells (Suc 0) (win_rows demo_region * win_cols demo_region) =
     [\<lparr>pw = [-80], ix = [0], sumpower = 10 powr (-8), count_mem = 0\<rparr>,
      \<lparr>pw = [-100], ix = [0], sumpower = 10 powr (-10), count_mem = 0\<rparr>]"
  by (simp add: point_states_def readings_at_def receive_power_def demo_env_def demo_cells_def
      demo_region_def ingest_cell_def sum_step_def rank_step_def sort_cell_def init_point_def
      Let_def numeral_2_eq_2)

lemma demo_arrays:
  "final_power (-999) demo_env demo_region demo_cells (Suc 0) = [[-80, -100]]"
  "final_index (-999) demo_env demo_region demo_cells (Suc 0) = [[0, 0]]"
  "final_sum (-999) demo_env demo_region demo_cells (Suc 0) = [-80, -100]"
  by (simp_all add: final_power_def final_index_def final_sum_def demo_states arr_power_of_def
      arr_index_of_def arr_sumpower_of_def finalize_sum_def Let_def)

lemma demo_output:
  "main_output (-999) demo_env (demo_cfg\<lparr>drv_name := drv, db_perf := p\<rparr>) demo_region
      [[-80, -100]] [[0, 0]] [-80, -100] =
     ([PutRow [Some (-80)], PutRow [None], CloseRaster], Inr [0, 0])"
  by (simp add: main_output_def select_output_def out_cell_def c_trunc_def ecno_of_def
      steps.simps run_defs demo_cfg_def demo_region_def numeral_2_eq_2)

lemma demo_persist_args:
  "persist_args (demo_cfg\<lparr>drv_name := drv, db_perf := p\<rparr>) demo_region demo_cells (Suc 0)
      [[-80, -100]] [[0, 0]] [0, 0] = demo_args\<lparr>drv_name := drv, db_perf := p\<rparr>"
  by (simp add: persist_args_def demo_cfg_def demo_region_def demo_cells_def demo_args_def
      c_round_def)


lemma demo_setup2:
  "main_setup demo_env (demo_cfg\<lparr>drv_name := drv, db_perf := p\<rparr>) demo_cells =
     main_setup demo_env (demo_cfg\<lparr>drv_name := drv\<rparr>) demo_cells"
  by (simp add: main_setup_def)

lemma demo_main:
  "main_model (-999) demo_env (demo_cfg\<lparr>drv_name := drv, db_perf := p\<rparr>) demo_region demo_cells =
     seq (main_setup demo_env (demo_cfg\<lparr>drv_name := drv\<rparr>) demo_cells)
       (\<lambda>n. seq ([OpenRaster ''best'', Message ''Sorting receive power values'',
                   ReadRaster ''lossA'', Message ''Finished sorting receive power values'',
                   PutRow [Some (-80)], PutRow [None], CloseRaster], Inr ())
              (\<lambda>_. steps [main_persist (-999) demo_env (demo_cfg\<lparr>drv_name := drv, db_perf := p\<rparr>)
                             demo_region demo_cells 1 [[-80, -100]] [[0, 0]] [0, 0],
                           emit (WriteHistory ''best'')]))"
proof -
  have n: "snd (main_setup demo_env (demo_cfg\<lparr>drv_name := drv\<rparr>) demo_cells) = Inr 1"
    by (simp add: demo_setup)
  obtain t where t: "main_setup demo_env (demo_cfg\<lparr>drv_name := drv\<rparr>) demo_cells = (t, Inr 1)"
    using n by (cases "main_setup demo_env (demo_cfg\<lparr>drv_name := drv\<rparr>) demo_cells") auto
  have o: "outraster_name (demo_cfg\<lparr>drv_name := drv, db_perf := p\<rparr>) = ''best''"
    by (simp add: demo_cfg_def)
  show ?thesis
    unfolding main_model_def demo_setup2 t
    by (simp add: main_tail_def demo_open demo_arrays demo_output o)
qed


lemma demo_persist_unsupported:
  "main_persist (-999) demo_env (demo_cfg\<lparr>drv_name := ''odbc'', db_perf := 99\<rparr>)
      demo_region demo_cells (Suc 0) [[-80, -100]] [[0, 0]] [0, 0] =
     ([Message ''Writing MaxPower data in table 'maxpower'...'',
       StartDriver ''odbc'' ''raplat'', MkTemp ''/tmp/fileAb12Cd'',
       Message ''Creating indermediate temporary CSV file '/tmp/fileAb12Cd'...'',
       WriteLine ''100,200,25,'A',7,-80.00,'hata',0.00'',
       WriteLine ''100,175,25,'A',7,-100.00,'hata',0.00'',
       RewindFile, Message ''Converting intermediate temporary CSV file to data table...'',
       Message ''... please wait ...''],
      Inl (Fatal ''dbperf=99 not supported for the database driver 'odbc' ! ''))"
proof -
  let ?c = "demo_cfg\<lparr>drv_name := ''odbc'', db_perf := 99\<rparr>"
  have h1: "drv_name ?c \<notin> {''none'', ''csv'', ''dbf'', ''sqlite'', ''mysql'', ''pg''}"
    and h2: "db_perf ?c < 0 \<or> 99 \<le> db_perf ?c"
    by simp_all
  have n: "tbl_name ?c = ''maxpower''" "drv_name ?c = ''odbc''" "db_name ?c = ''raplat''"
    "tmp_name demo_env = ''/tmp/fileAb12Cd''"
    by (simp_all add: demo_cfg_def demo_env_def)
  show ?thesis
    unfolding main_persist_unsupported[OF h1 h2] demo_persist_args n
    by (simp add: demo_records unsupported_msg_def quoted_def)
qed


lemma main_output_snd:
  "snd (main_output d e c w P I S) =
      (case snd (select_output e c P I S) of Inl err \<Rightarrow> Inl err
       | Inr sel \<Rightarrow> Inr (ecno_of P S (win_rows w * win_cols w)))"
  by (simp add: main_output_def snd_seq steps_emits ret_def split: sum.splits)



lemma final_arrays_lte [simp]:
  "final_power d (e\<lparr>lte_out := f\<rparr>) = final_power d e"
  "final_index d (e\<lparr>lte_out := f\<rparr>) = final_index d e"
  "final_sum d (e\<lparr>lte_out := f\<rparr>) = final_sum d e"
  by (intro ext, simp add: final_power_def final_index_def final_sum_def point_states_def
      readings_at_def)+




lemma persist_args_rx_thresh [simp]:
  "persist_args (c\<lparr>rx_thresh := t\<rparr>) = persist_args c"
  by (intro ext) (simp add: persist_args_def)

lemma main_persist_rx_thresh:
  "main_persist d e (c\<lparr>rx_thresh := t\<rparr>) w cells K P I ecno = main_persist d e c w cells K P I ecno"
  by (simp add: main_persist_def)

lemma main_persist_csv:
  assumes "drv_name c = ''csv''" and "file_exists e \<longrightarrow> ovr c" and "open_ok e"
  shows "main_persist d e c w cells K P I ecno =
     (Message (''Writing MaxPower data in csv file '' @ quoted (tbl_name c) @ ''...'') #
      ProbeFile (tbl_name c) # OpenFile (tbl_name c) #
      map WriteLine (all_records d e (persist_args c w cells K P I ecno)) @
      [CloseFile,
       Message (''Finished writing MaxPower data in csv file '' @ quoted (tbl_name c) @ ''...'')],
      Inr ())"
proof -
  have "csv_only (persist_args c w cells K P I ecno)" using assms(1) by (simp add: csv_only_def)
  then have "fill_database d e (persist_args c w cells K P I ecno) =
     (ProbeFile (tbl_name c) # OpenFile (tbl_name c) #
      map WriteLine (all_records d e (persist_args c w cells K P I ecno)) @ [CloseFile], Inr ())"
    using fill_database_csv[of "persist_args c w cells K P I ecno" e d] assms(2,3) by simp
  then show ?thesis using assms(1) by (simp add: main_persist_def steps.simps run_defs)
qed

lemma demo_cfg_csv: "demo_cfg\<lparr>drv_name := ''csv'', db_perf := 20\<rparr> = demo_cfg"
  by (simp add: demo_cfg_def)

lemma demo_persist_csv:
  "main_persist (-999) demo_env demo_cfg demo_region demo_cells (Suc 0) [[-80, -100]] [[0, 0]] [0, 0] =
     ([Message ''Writing MaxPower data in csv file 'maxpower'...'',
       ProbeFile ''maxpower'', OpenFile ''maxpower'',
       WriteLine ''100,200,25,'A',7,-80.00,'hata',0.00'',
       WriteLine ''100,175,25,'A',7,-100.00,'hata',0.00'',
       CloseFile, Message ''Finished writing MaxPower data in csv file 'maxpower'...''],
      Inr ())"
proof -
  have h: "drv_name demo_cfg = ''csv''" "file_exists demo_env \<longrightarrow> ovr demo_cfg" "open_ok demo_env"
    by (simp_all add: demo_cfg_def demo_env_def)
  have n: "tbl_name demo_cfg = ''maxpower''" by (simp add: demo_cfg_def)
  have a: "persist_args demo_cfg demo_region demo_cells (Suc 0) [[-80, -100]] [[0, 0]] [0, 0] =
      demo_args\<lparr>drv_name := ''csv'', db_perf := 20\<rparr>"
    using demo_persist_args[where drv = "''csv''" and p = 20] unfolding demo_cfg_csv .
  show ?thesis
    unfolding main_persist_csv[OF h] a n
    by (simp add: demo_records quoted_def)
qed

lemma demo_output_csv:
  "main_output (-999) demo_env demo_cfg demo_region [[-80, -100]] [[0, 0]] [-80, -100] =
     ([PutRow [Some (-80)], PutRow [None], CloseRaster], Inr [0, 0])"
  using demo_output[where drv = "''csv''" and p = 20] unfolding demo_cfg_csv .



text \<open>
  \<^verbatim>\<open>fill_database\<close> makes no use of \<^verbatim>\<open>PdBm2LteThroughput\<close>: the run that writes the
  data table or file is the same whatever that function computes.
\<close>

lemma cell_fields_lte [simp]: "cell_fields (e\<lparr>lte_out := f\<rparr>) = cell_fields e"
  by (intro ext) (simp add: cell_fields_def)

lemma record_text_lte [simp]: "record_text (e\<lparr>lte_out := f\<rparr>) = record_text e"
  by (intro ext) (simp add: record_text_def record_head_def)

lemma add_record_lte [simp]: "add_record d (e\<lparr>lte_out := f\<rparr>) = add_record d e"
  by (intro ext) (simp add: add_record_def split: prod.splits)

lemma flush_packet_lte [simp]: "flush_packet (e\<lparr>lte_out := f\<rparr>) = flush_packet e"
  by (intro ext) (simp add: flush_packet_def split: prod.splits)

lemma scan_cols_lte [simp]:
  "scan_cols d (e\<lparr>lte_out := f\<rparr>) a c pk row cols = scan_cols d e a c pk row cols"
proof (induction cols)
  case Nil
  show ?case by (rule ext) simp
next
  case (Cons col cols)
  show ?case by (rule ext) (simp add: Cons)
qed

lemma scan_rows_lte [simp]:
  "scan_rows d (e\<lparr>lte_out := f\<rparr>) a c pk rows = scan_rows d e a c pk rows"
proof (induction rows)
  case Nil
  show ?case by (rule ext) simp
next
  case (Cons row rows)
  show ?case by (rule ext) (simp add: Cons)
qed

lemma fill_database_lte [simp]: "fill_database d (e\<lparr>lte_out := f\<rparr>) = fill_database d e"
  by (intro ext)
    (simp add: fill_database_def open_sink_def close_sink_def load_statement_def)


lemma length_readings_at [simp]: "length (readings_at d e cells i) = length cells"
  by (simp add: readings_at_def)



text \<open>
  The records of the data table or file, written out: the points of a raster row whose
  strongest power is not \<^verbatim>\<open>DB_MIN_VAL\<close>; and the run of \<^verbatim>\<open>fill_database\<close> from
  \<^verbatim>\<open>main\<close> in the insert mode and in the mode of the temporary file.
\<close>

lemma row_records_persist:
  "row_records d e (persist_args c w cells K P I ecno) =
     (\<lambda>row. map (record_text e (persist_args c w cells K P I ecno) row)
              (filter (\<lambda>col. P ! 0 ! (row * win_cols w + col) \<noteq> d) [0..<win_cols w]))"
  by (rule ext) (simp add: row_records_def eligible_def)

lemma all_records_persist:
  "all_records d e (persist_args c w cells K P I ecno) =
     concat (map (\<lambda>row. map (record_text e (persist_args c w cells K P I ecno) row)
                          (filter (\<lambda>col. P ! 0 ! (row * win_cols w + col) \<noteq> d) [0..<win_cols w]))
               [0..<win_rows w])"
  by (simp add: all_records_def row_records_persist)

lemma main_persist_insert:
  assumes "drv_name c \<notin> {''none'', ''csv''}"
    and "drv_name c \<in> {''dbf'', ''sqlite''} \<or> (1 \<le> db_perf c \<and> db_perf c < 99)"
    and "begin_ok e" "commit_ok e" "\<forall>q. exec_ok e q"
  shows "main_persist d e c w cells K P I ecno =
     (Message (''Writing MaxPower data in table '' @ quoted (tbl_name c) @ ''...'') #
      StartDriver (drv_name c) (db_name c) # BeginTransaction #
      map (\<lambda>rs. Execute (insert_sql (tbl_name c) rs))
        (concat (map (\<lambda>row. chunks (if drv_name c \<in> {''dbf'', ''sqlite''} then 1 else nat (db_perf c))
                               (row_records d e (persist_args c w cells K P I ecno) row))
                   [0..<win_rows w])) @
      [CommitTransaction, CloseDriver,
       Message (''Finished writing MaxPower data in table '' @ quoted (tbl_name c) @ ''...'')],
      Inr ())"
proof -
  let ?a = "persist_args c w cells K P I ecno"
  have b1: "\<not> csv_only ?a" using assms(1) by (simp add: csv_only_def)
  have ef: "eff_db_perf ?a = (if drv_name c \<in> {''dbf'', ''sqlite''} then 1 else db_perf c)"
    by (simp add: eff_db_perf_def)
  have b2: "\<not> csv2db ?a" using b1 assms(2) by (auto simp: csv2db_def ef)
  have pk: "SQLPacketSize ?a = (if drv_name c \<in> {''dbf'', ''sqlite''} then 1 else nat (db_perf c))"
    using assms(2) by (auto simp: SQLPacketSize_def ef)
  have b3: "0 < SQLPacketSize ?a" unfolding pk using assms(2) by auto
  have "fill_database d e ?a =
     (StartDriver (drv_name ?a) (db_name ?a) # BeginTransaction #
      map (\<lambda>rs. Execute (insert_sql (tbl_name ?a) rs))
        (concat (map (\<lambda>row. chunks (SQLPacketSize ?a) (row_records d e ?a row)) [0..<nrows ?a])) @
      [CommitTransaction, CloseDriver], Inr ())"
    using b1 b2 b3 assms(3,4,5) by (rule fill_database_insert)
  then show ?thesis using assms(1) unfolding pk
    by (simp add: main_persist_def steps.simps run_defs)
qed

lemma main_persist_staged_lines:
  assumes "drv_name c \<notin> {''none'', ''csv'', ''dbf'', ''sqlite''}"
    and "db_perf c < 0 \<or> 99 \<le> db_perf c"
  shows "lines_of (fst (main_persist d e c w cells K P I ecno)) =
     all_records d e (persist_args c w cells K P I ecno)"
proof -
  let ?a = "persist_args c w cells K P I ecno"
  have b1: "\<not> csv_only ?a" using assms(1) by (simp add: csv_only_def)
  have "eff_db_perf ?a = db_perf c" using assms(1) by (simp add: eff_db_perf_def)
  then have b2: "csv2db ?a" using b1 assms(2) by (auto simp: csv2db_def)
  have "lines_of (fst (fill_database d e ?a)) = all_records d e ?a"
    unfolding fill_database_staged[OF b1 b2] by simp
  then show ?thesis using assms(1)
    by (simp add: main_persist_def steps.simps fst_seq run_defs split: sum.splits)
qed

lemma demo_persist_insert:
  "persist_args (demo_cfg\<lparr>drv_name := ''mysql'', db_perf := 2\<rparr>) demo_region demo_cells (Suc 0)
      [[-80, -100]] [[0, 0]] [0, 0] = demo_args"
  unfolding demo_persist_args by (simp add: demo_args_def)

text \<open>
  The run of \<^verbatim>\<open>main\<close> when every call before \<^verbatim>\<open>fill_database\<close> succeeds, for a
  driver that the mode of the temporary file does not support.
\<close>

lemma proj_ReadRaster [simp]:
  "rows_of (map (\<lambda>x. ReadRaster (f x)) xs) = []"
  "lines_of (map (\<lambda>x. ReadRaster (f x)) xs) = []"
  "statements_of (map (\<lambda>x. ReadRaster (f x)) xs) = []"
  "tables_of (map (\<lambda>x. ReadRaster (f x)) xs) = []"
  by (induction xs) simp_all

lemma proj_PutRow [simp]:
  "lines_of (map (\<lambda>x. PutRow (f x)) xs) = []"
  "statements_of (map (\<lambda>x. PutRow (f x)) xs) = []"
  "tables_of (map (\<lambda>x. PutRow (f x)) xs) = []"
  by (induction xs) simp_all

lemma proj_WriteLine [simp]:
  "rows_of (map WriteLine ls) = []"
  "statements_of (map WriteLine ls) = []"
  "tables_of (map WriteLine ls) = []"
  by (induction ls) simp_all

lemma select_output_ok:
  "selection_ok c \<Longrightarrow> \<exists>sel. snd (select_output e c P I S) = Inr sel"
  by (auto simp add: selection_ok_def select_output_def run_defs simp del: strstr.simps)

lemma main_output_ok:
  assumes "selection_ok c"
  shows "snd (main_output d e c w P I S) = Inr (ecno_of P S (win_rows w * win_cols w))"
  using select_output_ok[OF assms, of e P I S] by (auto simp: main_output_snd)

lemma open_maps_ok:
  "\<forall>cl \<in> set cells. read_raster e (raster_nm cl) \<noteq> None \<Longrightarrow>
     open_maps e cells = (map (\<lambda>cl. ReadRaster (raster_nm cl)) cells, Inr ())"
  by (induction cells) (simp_all add: steps.simps run_defs)

lemma main_open_ok:
  assumes "legal_name e" "raster_new_ok e" "\<forall>cl \<in> set cells. read_raster e (raster_nm cl) \<noteq> None"
  shows "main_open e c cells =
     (OpenRaster (outraster_name c) # Message ''Sorting receive power values'' #
      map (\<lambda>cl. ReadRaster (raster_nm cl)) cells @
      [Message ''Finished sorting receive power values''], Inr ())"
  using assms(1,2) by (simp add: main_open_def open_maps_ok[OF assms(3)] steps.simps run_defs)

lemma create_table_ok:
  assumes "table_exists e \<longrightarrow> ov \<and> delete_ok e" "drv \<noteq> ''pg''" "0 \<le> n" "create_ok e"
  shows "create_table e drv db tbl n ov =
     (TableExists drv db tbl # (if table_exists e then [DeleteTable drv db tbl] else []) @
      [SetConnection drv db, StartDriver drv db, CreateTable tbl (table_columns (nat n)),
       CloseDriver], Inr ())"
  using assms by (simp add: create_table_def steps.simps run_defs)

lemma main_setup_ok:
  assumes "input_ok e" "cells \<noteq> []" "drv_name c \<notin> {''none'', ''csv'', ''pg''}"
    and "1 \<le> cell_num c" "table_exists e \<longrightarrow> ovr c \<and> delete_ok e" "create_ok e"
  shows "main_setup e c cells =
     (ReadFile (in_file c) # Message (''Processing '' @ show_nat (length cells) @ '' cells...'') #
      TableExists (drv_name c) (db_name c) (tbl_name c) #
      (if table_exists e then [DeleteTable (drv_name c) (db_name c) (tbl_name c)] else []) @
      [SetConnection (drv_name c) (db_name c), StartDriver (drv_name c) (db_name c),
       CreateTable (tbl_name c) (table_columns (nat (clamp_cell_num (cell_num c) (length cells)))),
       CloseDriver],
      Inr (clamp_cell_num (cell_num c) (length cells)))"
    and "1 \<le> clamp_cell_num (cell_num c) (length cells)"
proof -
  have l: "1 \<le> int (length cells)" using assms(2) by (cases cells) simp_all
  show n: "1 \<le> clamp_cell_num (cell_num c) (length cells)"
    using assms(4) l by (simp add: clamp_cell_num_def)
  have pg: "drv_name c \<noteq> ''pg''" using assms(3) by simp
  have n0: "0 \<le> clamp_cell_num (cell_num c) (length cells)" using n by simp
  show "main_setup e c cells =
     (ReadFile (in_file c) # Message (''Processing '' @ show_nat (length cells) @ '' cells...'') #
      TableExists (drv_name c) (db_name c) (tbl_name c) #
      (if table_exists e then [DeleteTable (drv_name c) (db_name c) (tbl_name c)] else []) @
      [SetConnection (drv_name c) (db_name c), StartDriver (drv_name c) (db_name c),
       CreateTable (tbl_name c) (table_columns (nat (clamp_cell_num (cell_num c) (length cells)))),
       CloseDriver],
      Inr (clamp_cell_num (cell_num c) (length cells)))"
    using assms(1,2,3)
    by (simp add: main_setup_def create_table_ok[OF assms(5) pg n0 assms(6)] steps.simps run_defs)
qed

lemma main_model_unsupported:
  assumes drv: "drv_name c \<notin> {''none'', ''csv'', ''dbf'', ''sqlite'', ''mysql'', ''pg''}"
    and perf: "db_perf c < 0 \<or> 99 \<le> db_perf c"
    and "input_ok e" "cells \<noteq> []" "1 \<le> cell_num c"
    and "table_exists e \<longrightarrow> ovr c \<and> delete_ok e" "create_ok e"
    and "legal_name e" "raster_new_ok e" "\<forall>cl \<in> set cells. read_raster e (raster_nm cl) \<noteq> None"
    and "selection_ok c"
    and K: "K = nat (clamp_cell_num (cell_num c) (length cells))"
    and ecno: "ecno = ecno_of (final_power d e w cells K) (final_sum d e w cells K)
                        (win_rows w * win_cols w)"
  shows "snd (main_model d e c w cells) = Inl (Fatal (unsupported_msg (drv_name c)))"
    and "tables_of (fst (main_model d e c w cells)) = [(tbl_name c, table_columns K)]"
    and "length (rows_of (fst (main_model d e c w cells))) = win_rows w"
    and "lines_of (fst (main_model d e c w cells)) =
           all_records d e (persist_args c w cells K (final_power d e w cells K)
                              (final_index d e w cells K) ecno)"
    and "statements_of (fst (main_model d e c w cells)) = []"
proof -
  let ?n = "clamp_cell_num (cell_num c) (length cells)"
  let ?P = "final_power d e w cells K"
  let ?I = "final_index d e w cells K"
  let ?S = "final_sum d e w cells K"
  have d3: "drv_name c \<notin> {''none'', ''csv'', ''pg''}" using drv by simp
  note s1 = main_setup_ok[OF assms(3) assms(4) d3 assms(5) assms(6) assms(7)]
  note s2 = main_open_ok[OF assms(8) assms(9) assms(10), of c]
  have n1: "\<not> ?n < 1" using s1(2) by simp
  have s3: "snd (main_output d e c w ?P ?I ?S) = Inr ecno"
    unfolding ecno using assms(11) by (rule main_output_ok)
  obtain sel where t3: "fst (main_output d e c w ?P ?I ?S) =
       map (\<lambda>row. PutRow (map (\<lambda>col. out_cell d c (fst sel) (snd sel) (?P ! 0) (row * win_cols w + col))
                             [0..<win_cols w])) [0..<win_rows w] @ [CloseRaster]"
    using main_output_success[OF s3] by blast
  have mo: "main_output d e c w ?P ?I ?S =
       (map (\<lambda>row. PutRow (map (\<lambda>col. out_cell d c (fst sel) (snd sel) (?P ! 0) (row * win_cols w + col))
                             [0..<win_cols w])) [0..<win_rows w] @ [CloseRaster], Inr ecno)"
    using t3 s3 by (cases "main_output d e c w ?P ?I ?S") simp
  have run: "main_model d e c w cells =
      (fst (main_setup e c cells) @ fst (main_open e c cells) @
       (map (\<lambda>row. PutRow (map (\<lambda>col. out_cell d c (fst sel) (snd sel) (?P ! 0) (row * win_cols w + col))
                             [0..<win_cols w])) [0..<win_rows w] @ [CloseRaster]) @
       Message (''Writing MaxPower data in table '' @ quoted (tbl_name c) @ ''...'') #
       StartDriver (drv_name c) (db_name c) # MkTemp (tmp_name e) #
       Message (''Creating indermediate temporary CSV file '' @ quoted (tmp_name e) @ ''...'') #
       map WriteLine (all_records d e (persist_args c w cells K ?P ?I ecno)) @
       [RewindFile, Message ''Converting intermediate temporary CSV file to data table...'',
        Message ''... please wait ...''],
       Inl (Fatal (unsupported_msg (drv_name c))))"
    unfolding main_model_def s1(1) using n1
    by (simp add: s2 main_tail_def K[symmetric] mo main_persist_unsupported[OF drv perf] steps.simps)
  show "snd (main_model d e c w cells) = Inl (Fatal (unsupported_msg (drv_name c)))"
    unfolding run by simp
  show "tables_of (fst (main_model d e c w cells)) = [(tbl_name c, table_columns K)]"
    unfolding run s1(1) s2 by (simp add: K)
  show "length (rows_of (fst (main_model d e c w cells))) = win_rows w"
    unfolding run s1(1) s2 by simp
  show "lines_of (fst (main_model d e c w cells)) =
           all_records d e (persist_args c w cells K ?P ?I ecno)"
    unfolding run s1(1) s2 by simp
  show "statements_of (fst (main_model d e c w cells)) = []"
    unfolding run s1(1) s2 by simp
qed

lemma demo_clamp: "nat (clamp_cell_num (cell_num (demo_cfg\<lparr>drv_name := drv, db_perf := p\<rparr>))
                         (length demo_cells)) = Suc 0"
  by (simp add: clamp_cell_num_def demo_cfg_def demo_cells_def)

lemma demo_ecno: "ecno_of [[-80, -100]] [-80, -100] (win_rows demo_region * win_cols demo_region) = [0, 0]"
  by (simp add: ecno_of_def demo_region_def numeral_2_eq_2)
subsection \<open>Claims on main\<close>

text \<open>
  Claim C10. When \<^verbatim>\<open>cell_num\<close> exceeds the number \<open>M\<close> of lines of the
  \<^verbatim>\<open>cell_input\<close> file, \<^verbatim>\<open>main\<close> runs exactly as with \<^verbatim>\<open>cell_num = M\<close>: the same
  events, messages and result, so nothing tells of the reduction. Every table the run
  creates has the columns of \<open>M\<close> slots, \<open>4 M + 4\<close> of them, and the value that the
  ranking and \<^verbatim>\<open>fill_database\<close> receive is \<open>M\<close> (1 for the driver \<^verbatim>\<open>none\<close>).
\<close>

theorem cell_num_reduced_to_map_number:
  assumes "int (length cells) < cell_num c"
  shows "main_model dbmin e c w cells =
           main_model dbmin e (c\<lparr>cell_num := int (length cells)\<rparr>) w cells \<and>
         set (tables_of (fst (main_model dbmin e c w cells))) \<subseteq>
           {(tbl_name c, table_columns (length cells))} \<and>
         length (table_columns (length cells)) = 4 * length cells + 4 \<and>
         (\<forall>n. snd (main_setup e c cells) = Inr n \<longrightarrow>
              n = (if drv_name c = ''none'' then 1 else int (length cells)) \<and>
              (drv_name c \<noteq> ''none'' \<and> drv_name c \<noteq> ''csv'' \<longrightarrow>
               tables_of (fst (main_model dbmin e c w cells)) =
                 [(tbl_name c, table_columns (length cells))]))"
proof -
  have cl: "clamp_cell_num (cell_num c) (length cells) = int (length cells)"
    using assms by (simp add: clamp_cell_num_def)
  have eq: "main_model dbmin e c w cells =
           main_model dbmin e (c\<lparr>cell_num := int (length cells)\<rparr>) w cells"
    using main_setup_clamped[OF assms, of e] by (simp add: main_model_def cong: if_cong)
  have tb: "set (tables_of (fst (main_model dbmin e c w cells))) \<subseteq>
           {(tbl_name c, table_columns (length cells))}"
    using main_setup_tables[of e c cells] by (simp add: main_model_tables cl)
  have res: "\<forall>n. snd (main_setup e c cells) = Inr n \<longrightarrow>
              n = (if drv_name c = ''none'' then 1 else int (length cells)) \<and>
              (drv_name c \<noteq> ''none'' \<and> drv_name c \<noteq> ''csv'' \<longrightarrow>
               tables_of (fst (main_model dbmin e c w cells)) =
                 [(tbl_name c, table_columns (length cells))])"
  proof (intro allI impI conjI)
    fix n assume n: "snd (main_setup e c cells) = Inr n"
    show "n = (if drv_name c = ''none'' then 1 else int (length cells))"
      using main_setup_result[OF n] cl by simp
    assume d: "drv_name c \<noteq> ''none'' \<and> drv_name c \<noteq> ''csv''"
    then have "n = int (length cells)" using main_setup_result[OF n] cl by simp
    then show "tables_of (fst (main_model dbmin e c w cells)) =
                 [(tbl_name c, table_columns (length cells))]"
      using main_setup_created[OF n] d by (simp add: main_model_tables)
  qed
  show ?thesis using eq tb res length_table_columns by blast
qed

theorem cell_num_reduced_to_map_number_witness:
  "int (length demo_cells) < cell_num (demo_cfg\<lparr>drv_name := ''mysql''\<rparr>) \<and>
   main_model (-999) demo_env (demo_cfg\<lparr>drv_name := ''mysql''\<rparr>) demo_region demo_cells =
     main_model (-999) demo_env (demo_cfg\<lparr>drv_name := ''mysql'', cell_num := 1\<rparr>)
       demo_region demo_cells \<and>
   snd (main_setup demo_env (demo_cfg\<lparr>drv_name := ''mysql''\<rparr>) demo_cells) = Inr 1 \<and>
   tables_of (fst (main_model (-999) demo_env (demo_cfg\<lparr>drv_name := ''mysql''\<rparr>)
                     demo_region demo_cells)) = [(''maxpower'', table_columns 1)] \<and>
   length (table_columns 1) = 8"
proof -
  let ?c = "demo_cfg\<lparr>drv_name := ''mysql''\<rparr>"
  have h: "int (length demo_cells) < cell_num ?c"
    by (simp add: demo_cells_def demo_cfg_def)
  have s: "snd (main_setup demo_env ?c demo_cells) = Inr 1"
    by (simp add: demo_setup)
  have l: "length demo_cells = 1" "tbl_name ?c = ''maxpower''" "drv_name ?c = ''mysql''"
    by (simp_all add: demo_cells_def demo_cfg_def)
  from cell_num_reduced_to_map_number[OF h, of "-999" demo_env demo_region]
  have a: "main_model (-999) demo_env ?c demo_region demo_cells =
           main_model (-999) demo_env (?c\<lparr>cell_num := int (length demo_cells)\<rparr>) demo_region demo_cells"
    and b: "\<forall>n. snd (main_setup demo_env ?c demo_cells) = Inr n \<longrightarrow>
              n = (if drv_name ?c = ''none'' then 1 else int (length demo_cells)) \<and>
              (drv_name ?c \<noteq> ''none'' \<and> drv_name ?c \<noteq> ''csv'' \<longrightarrow>
               tables_of (fst (main_model (-999) demo_env ?c demo_region demo_cells)) =
                 [(tbl_name ?c, table_columns (length demo_cells))])"
    and c: "length (table_columns (length demo_cells)) = 4 * length demo_cells + 4"
    by blast+
  from b s have "tables_of (fst (main_model (-999) demo_env ?c demo_region demo_cells)) =
                 [(tbl_name ?c, table_columns (length demo_cells))]"
    unfolding l by simp
  then show ?thesis using h a c s unfolding l by simp
qed


text \<open>
  Claim C5, as the code has it. With \<^verbatim>\<open>dbperf=99\<close> and a database driver other than
  \<^verbatim>\<open>mysql\<close> and \<^verbatim>\<open>pg\<close> (and other than \<^verbatim>\<open>dbf\<close> and \<^verbatim>\<open>sqlite\<close>, for which
  \<^verbatim>\<open>dbperf\<close> is replaced by 1) the run never completes, and the driver is refused
  only at the end of \<^verbatim>\<open>fill_database\<close>. First, whenever the run ends with the
  message that names the driver, the table has been created, every row of the output
  raster has been written, the temporary file has been made and holds the record of
  every point written; only the statement that loads the file has not been executed.
  Second, the run does end with that message whenever every earlier call succeeds:
  the \<^verbatim>\<open>cell_input\<close> file opens and is not empty, \<^verbatim>\<open>cell_num\<close> is at least 1, the
  table does not exist or may be and is deleted, the table is created, the output
  raster and every path-loss raster open, and the selection of the output is one that
  \<^verbatim>\<open>main\<close> accepts. By then the table is there, the output raster has all its rows,
  the temporary file holds the records of all points written, and no statement has
  been executed. (If an earlier call fails the run ends there, with the message of
  that call.)
\<close>

theorem unsupported_bulk_driver_detected_last:
  assumes "drv_name c \<notin> {''none'', ''csv'', ''dbf'', ''sqlite'', ''mysql'', ''pg''}"
    and "db_perf c < 0 \<or> 99 \<le> db_perf c"
  shows "snd (main_model dbmin e c w cells) \<noteq> Inr () \<and>
     (snd (main_model dbmin e c w cells) = Inl (Fatal (unsupported_msg (drv_name c))) \<longrightarrow>
       (\<exists>n ecno.
          snd (main_setup e c cells) = Inr n \<and> 1 \<le> n \<and>
          tables_of (fst (main_setup e c cells)) = [(tbl_name c, table_columns (nat n))] \<and>
          snd (main_open e c cells) = Inr () \<and>
          snd (main_output dbmin e c w (final_power dbmin e w cells (nat n))
                 (final_index dbmin e w cells (nat n)) (final_sum dbmin e w cells (nat n))) = Inr ecno \<and>
          length (rows_of (fst (main_output dbmin e c w (final_power dbmin e w cells (nat n))
                 (final_index dbmin e w cells (nat n)) (final_sum dbmin e w cells (nat n))))) =
            win_rows w \<and>
          fst (main_model dbmin e c w cells) =
            fst (main_setup e c cells) @ fst (main_open e c cells) @
            fst (main_output dbmin e c w (final_power dbmin e w cells (nat n))
                 (final_index dbmin e w cells (nat n)) (final_sum dbmin e w cells (nat n))) @
            Message (''Writing MaxPower data in table '' @ quoted (tbl_name c) @ ''...'') #
            StartDriver (drv_name c) (db_name c) # MkTemp (tmp_name e) #
            Message (''Creating indermediate temporary CSV file '' @ quoted (tmp_name e) @ ''...'') #
            map WriteLine
              (all_records dbmin e
                 (persist_args c w cells (nat n) (final_power dbmin e w cells (nat n))
                    (final_index dbmin e w cells (nat n)) ecno)) @
            [RewindFile, Message ''Converting intermediate temporary CSV file to data table...'',
             Message ''... please wait ...''])) \<and>
     (input_ok e \<and> cells \<noteq> [] \<and> 1 \<le> cell_num c \<and>
      (table_exists e \<longrightarrow> ovr c \<and> delete_ok e) \<and> create_ok e \<and>
      legal_name e \<and> raster_new_ok e \<and>
      (\<forall>cl \<in> set cells. read_raster e (raster_nm cl) \<noteq> None) \<and> selection_ok c \<longrightarrow>
        snd (main_model dbmin e c w cells) = Inl (Fatal (unsupported_msg (drv_name c))) \<and>
        tables_of (fst (main_model dbmin e c w cells)) =
          [(tbl_name c, table_columns (nat (clamp_cell_num (cell_num c) (length cells))))] \<and>
        length (rows_of (fst (main_model dbmin e c w cells))) = win_rows w \<and>
        lines_of (fst (main_model dbmin e c w cells)) =
          all_records dbmin e
            (persist_args c w cells (nat (clamp_cell_num (cell_num c) (length cells)))
               (final_power dbmin e w cells (nat (clamp_cell_num (cell_num c) (length cells))))
               (final_index dbmin e w cells (nat (clamp_cell_num (cell_num c) (length cells))))
               (ecno_of (final_power dbmin e w cells (nat (clamp_cell_num (cell_num c) (length cells))))
                  (final_sum dbmin e w cells (nat (clamp_cell_num (cell_num c) (length cells))))
                  (win_rows w * win_cols w))) \<and>
        statements_of (fst (main_model dbmin e c w cells)) = [])"
proof -
  have early: "snd (main_model dbmin e c w cells) \<noteq> Inr () \<and>
     (snd (main_model dbmin e c w cells) = Inl (Fatal (unsupported_msg (drv_name c))) \<longrightarrow>
       (\<exists>n ecno.
          snd (main_setup e c cells) = Inr n \<and> 1 \<le> n \<and>
          tables_of (fst (main_setup e c cells)) = [(tbl_name c, table_columns (nat n))] \<and>
          snd (main_open e c cells) = Inr () \<and>
          snd (main_output dbmin e c w (final_power dbmin e w cells (nat n))
                 (final_index dbmin e w cells (nat n)) (final_sum dbmin e w cells (nat n))) = Inr ecno \<and>
          length (rows_of (fst (main_output dbmin e c w (final_power dbmin e w cells (nat n))
                 (final_index dbmin e w cells (nat n)) (final_sum dbmin e w cells (nat n))))) =
            win_rows w \<and>
          fst (main_model dbmin e c w cells) =
            fst (main_setup e c cells) @ fst (main_open e c cells) @
            fst (main_output dbmin e c w (final_power dbmin e w cells (nat n))
                 (final_index dbmin e w cells (nat n)) (final_sum dbmin e w cells (nat n))) @
            Message (''Writing MaxPower data in table '' @ quoted (tbl_name c) @ ''...'') #
            StartDriver (drv_name c) (db_name c) # MkTemp (tmp_name e) #
            Message (''Creating indermediate temporary CSV file '' @ quoted (tmp_name e) @ ''...'') #
            map WriteLine
              (all_records dbmin e
                 (persist_args c w cells (nat n) (final_power dbmin e w cells (nat n))
                    (final_index dbmin e w cells (nat n)) ecno)) @
            [RewindFile, Message ''Converting intermediate temporary CSV file to data table...'',
             Message ''... please wait ...'']))"
  proof -
    let ?m = "unsupported_msg (drv_name c)"
    obtain t1 r1 where s1: "main_setup e c cells = (t1, r1)" by (cases "main_setup e c cells")
    have f1: "r1 \<noteq> Inl (Fatal ?m)" using main_setup_failure[of e c cells "drv_name c"] s1 by simp
    show ?thesis
    proof (cases r1)
      case (Inl err)
      then show ?thesis using s1 f1 by (simp add: main_model_def)
    next
      case (Inr n)
      note n = this
      show ?thesis
      proof (cases "n < 1")
        case True
        then show ?thesis using s1 n by (simp add: main_model_def run_defs)
      next
        case False
        then have n1: "1 \<le> n" by simp
        have tb: "tables_of (fst (main_setup e c cells)) = [(tbl_name c, table_columns (nat n))]"
          using main_setup_created[of e c cells n] s1 n assms(1) by simp
        obtain t2 r2 where s2: "main_open e c cells = (t2, r2)" by (cases "main_open e c cells")
        have f2: "r2 \<noteq> Inl (Fatal ?m)" using main_open_failure[of e c cells "drv_name c"] s2 by simp
        show ?thesis
        proof (cases r2)
          case (Inl err)
          then show ?thesis using s1 n False s2 f2 by (simp add: main_model_def)
        next
          case (Inr u)
          note u = this
          let ?P = "final_power dbmin e w cells (nat n)"
          let ?I = "final_index dbmin e w cells (nat n)"
          let ?S = "final_sum dbmin e w cells (nat n)"
          obtain t3 r3 where s3: "main_output dbmin e c w ?P ?I ?S = (t3, r3)"
            by (cases "main_output dbmin e c w ?P ?I ?S")
          have f3: "r3 \<noteq> Inl (Fatal ?m)"
            using main_output_failure[of dbmin e c w ?P ?I ?S "drv_name c"] s3 by simp
          show ?thesis
          proof (cases r3)
            case (Inl err)
            then show ?thesis using s1 n False s2 u s3 f3
              by (simp add: main_model_def main_tail_def)
          next
            case (Inr ecno)
            have "snd (main_output dbmin e c w ?P ?I ?S) = Inr ecno" using s3 Inr by simp
            from main_output_success[OF this]
            have rows: "length (rows_of (fst (main_output dbmin e c w ?P ?I ?S))) = win_rows w"
              by auto
            have run: "main_model dbmin e c w cells =
              (t1 @ t2 @ t3 @
               Message (''Writing MaxPower data in table '' @ quoted (tbl_name c) @ ''...'') #
               StartDriver (drv_name c) (db_name c) # MkTemp (tmp_name e) #
               Message (''Creating indermediate temporary CSV file '' @ quoted (tmp_name e) @ ''...'') #
               map WriteLine (all_records dbmin e (persist_args c w cells (nat n) ?P ?I ecno)) @
               [RewindFile, Message ''Converting intermediate temporary CSV file to data table...'',
                Message ''... please wait ...''],
               Inl (Fatal ?m))"
              using s1 n False s2 u s3 Inr main_persist_unsupported[OF assms]
              by (simp add: main_model_def main_tail_def steps.simps)
            show ?thesis
              unfolding run using s1 n n1 tb s2 u s3 Inr rows by simp
          qed
        qed
      qed
    qed
  qed
  have late: "(input_ok e \<and> cells \<noteq> [] \<and> 1 \<le> cell_num c \<and>
      (table_exists e \<longrightarrow> ovr c \<and> delete_ok e) \<and> create_ok e \<and>
      legal_name e \<and> raster_new_ok e \<and>
      (\<forall>cl \<in> set cells. read_raster e (raster_nm cl) \<noteq> None) \<and> selection_ok c \<longrightarrow>
        snd (main_model dbmin e c w cells) = Inl (Fatal (unsupported_msg (drv_name c))) \<and>
        tables_of (fst (main_model dbmin e c w cells)) =
          [(tbl_name c, table_columns (nat (clamp_cell_num (cell_num c) (length cells))))] \<and>
        length (rows_of (fst (main_model dbmin e c w cells))) = win_rows w \<and>
        lines_of (fst (main_model dbmin e c w cells)) =
          all_records dbmin e
            (persist_args c w cells (nat (clamp_cell_num (cell_num c) (length cells)))
               (final_power dbmin e w cells (nat (clamp_cell_num (cell_num c) (length cells))))
               (final_index dbmin e w cells (nat (clamp_cell_num (cell_num c) (length cells))))
               (ecno_of (final_power dbmin e w cells (nat (clamp_cell_num (cell_num c) (length cells))))
                  (final_sum dbmin e w cells (nat (clamp_cell_num (cell_num c) (length cells))))
                  (win_rows w * win_cols w))) \<and>
        statements_of (fst (main_model dbmin e c w cells)) = [])"
  proof (intro impI)
    assume H: "input_ok e \<and> cells \<noteq> [] \<and> 1 \<le> cell_num c \<and>
      (table_exists e \<longrightarrow> ovr c \<and> delete_ok e) \<and> create_ok e \<and>
      legal_name e \<and> raster_new_ok e \<and>
      (\<forall>cl \<in> set cells. read_raster e (raster_nm cl) \<noteq> None) \<and> selection_ok c"
    then have h3: "input_ok e" and h4: "cells \<noteq> []" and h5: "1 \<le> cell_num c"
      and h6: "table_exists e \<longrightarrow> ovr c \<and> delete_ok e" and h7: "create_ok e"
      and h8: "legal_name e" and h9: "raster_new_ok e"
      and h10: "\<forall>cl \<in> set cells. read_raster e (raster_nm cl) \<noteq> None"
      and h11: "selection_ok c"
      by blast+
    note R = main_model_unsupported[OF assms(1) assms(2) h3 h4 h5 h6 h7 h8 h9 h10 h11 refl refl,
        where d = dbmin and w = w]
    show "snd (main_model dbmin e c w cells) = Inl (Fatal (unsupported_msg (drv_name c))) \<and>
        tables_of (fst (main_model dbmin e c w cells)) =
          [(tbl_name c, table_columns (nat (clamp_cell_num (cell_num c) (length cells))))] \<and>
        length (rows_of (fst (main_model dbmin e c w cells))) = win_rows w \<and>
        lines_of (fst (main_model dbmin e c w cells)) =
          all_records dbmin e
            (persist_args c w cells (nat (clamp_cell_num (cell_num c) (length cells)))
               (final_power dbmin e w cells (nat (clamp_cell_num (cell_num c) (length cells))))
               (final_index dbmin e w cells (nat (clamp_cell_num (cell_num c) (length cells))))
               (ecno_of (final_power dbmin e w cells (nat (clamp_cell_num (cell_num c) (length cells))))
                  (final_sum dbmin e w cells (nat (clamp_cell_num (cell_num c) (length cells))))
                  (win_rows w * win_cols w))) \<and>
        statements_of (fst (main_model dbmin e c w cells)) = []"
      by (intro conjI) (rule R)+
  qed
  show ?thesis
    by (rule conjI[OF early[THEN conjunct1] conjI[OF early[THEN conjunct2] late]])
qed


text \<open>
  Claim C5 as the specification states it fails: in the example run with the driver
  \<^verbatim>\<open>odbc\<close> and \<^verbatim>\<open>dbperf=99\<close> the run ends with the message that refuses the driver,
  and by then the table has been created, the output raster written, and the
  temporary file made and filled.
\<close>

theorem unsupported_driver_refused_after_writing:
  "snd (main_model (-999) demo_env (demo_cfg\<lparr>drv_name := ''odbc'', db_perf := 99\<rparr>)
          demo_region demo_cells) =
     Inl (Fatal ''dbperf=99 not supported for the database driver 'odbc' ! '') \<and>
   tables_of (fst (main_model (-999) demo_env (demo_cfg\<lparr>drv_name := ''odbc'', db_perf := 99\<rparr>)
          demo_region demo_cells)) = [(''maxpower'', table_columns 1)] \<and>
   rows_of (fst (main_model (-999) demo_env (demo_cfg\<lparr>drv_name := ''odbc'', db_perf := 99\<rparr>)
          demo_region demo_cells)) = [[Some (-80)], [None]] \<and>
   lines_of (fst (main_model (-999) demo_env (demo_cfg\<lparr>drv_name := ''odbc'', db_perf := 99\<rparr>)
          demo_region demo_cells)) =
     [''100,200,25,'A',7,-80.00,'hata',0.00'', ''100,175,25,'A',7,-100.00,'hata',0.00'']"
  unfolding demo_main
  by (simp add: demo_setup demo_persist_unsupported steps.simps)

theorem unsupported_bulk_driver_detected_last_witness:
  "drv_name (demo_cfg\<lparr>drv_name := ''odbc'', db_perf := 99\<rparr>) \<notin>
     {''none'', ''csv'', ''dbf'', ''sqlite'', ''mysql'', ''pg''} \<and>
   (db_perf (demo_cfg\<lparr>drv_name := ''odbc'', db_perf := 99\<rparr>) < 0 \<or>
    99 \<le> db_perf (demo_cfg\<lparr>drv_name := ''odbc'', db_perf := 99\<rparr>)) \<and>
   input_ok demo_env \<and> demo_cells \<noteq> [] \<and>
   1 \<le> cell_num (demo_cfg\<lparr>drv_name := ''odbc'', db_perf := 99\<rparr>) \<and>
   table_exists demo_env = False \<and> create_ok demo_env \<and> legal_name demo_env \<and>
   raster_new_ok demo_env \<and> read_raster demo_env ''lossA'' \<noteq> None \<and>
   selection_ok (demo_cfg\<lparr>drv_name := ''odbc'', db_perf := 99\<rparr>) \<and>
   snd (main_model (-999) demo_env (demo_cfg\<lparr>drv_name := ''odbc'', db_perf := 99\<rparr>)
          demo_region demo_cells) = Inl (Fatal (unsupported_msg ''odbc'')) \<and>
   tables_of (fst (main_model (-999) demo_env (demo_cfg\<lparr>drv_name := ''odbc'', db_perf := 99\<rparr>)
          demo_region demo_cells)) = [(''maxpower'', table_columns (Suc 0))] \<and>
   length (rows_of (fst (main_model (-999) demo_env (demo_cfg\<lparr>drv_name := ''odbc'', db_perf := 99\<rparr>)
          demo_region demo_cells))) = 2 \<and>
   lines_of (fst (main_model (-999) demo_env (demo_cfg\<lparr>drv_name := ''odbc'', db_perf := 99\<rparr>)
          demo_region demo_cells)) =
     [''100,200,25,'A',7,-80.00,'hata',0.00'', ''100,175,25,'A',7,-100.00,'hata',0.00''] \<and>
   statements_of (fst (main_model (-999) demo_env (demo_cfg\<lparr>drv_name := ''odbc'', db_perf := 99\<rparr>)
          demo_region demo_cells)) = []"
proof -
  let ?c = "demo_cfg\<lparr>drv_name := ''odbc'', db_perf := 99\<rparr>"
  have h1: "drv_name ?c \<notin> {''none'', ''csv'', ''dbf'', ''sqlite'', ''mysql'', ''pg''}"
    and h2: "db_perf ?c < 0 \<or> 99 \<le> db_perf ?c"
    by simp_all
  have c1: "input_ok demo_env" and c2: "demo_cells \<noteq> []" and c3: "1 \<le> cell_num ?c"
    and c4: "table_exists demo_env = False" and c5: "create_ok demo_env"
    and c6: "legal_name demo_env" and c7: "raster_new_ok demo_env"
    and c8: "read_raster demo_env ''lossA'' \<noteq> None"
    by (simp_all add: demo_env_def demo_cells_def demo_cfg_def)
  have c9: "selection_ok ?c" by (simp add: selection_ok_def demo_cfg_def)
  have c10: "\<forall>cl \<in> set demo_cells. read_raster demo_env (raster_nm cl) \<noteq> None"
    using c8 by (simp add: demo_cells_def)
  have c11: "table_exists demo_env \<longrightarrow> ovr ?c \<and> delete_ok demo_env" using c4 by simp
  have H: "input_ok demo_env \<and> demo_cells \<noteq> [] \<and> 1 \<le> cell_num ?c \<and>
      (table_exists demo_env \<longrightarrow> ovr ?c \<and> delete_ok demo_env) \<and> create_ok demo_env \<and>
      legal_name demo_env \<and> raster_new_ok demo_env \<and>
      (\<forall>cl \<in> set demo_cells. read_raster demo_env (raster_nm cl) \<noteq> None) \<and> selection_ok ?c"
    by (intro conjI) (rule c1 c2 c3 c11 c5 c6 c7 c10 c9)+
  note T = unsupported_bulk_driver_detected_last[OF h1 h2, where dbmin = "-999" and e = demo_env
      and w = demo_region and cells = demo_cells, THEN conjunct2, THEN conjunct2, THEN mp, OF H]
  have n: "tbl_name ?c = ''maxpower''" "drv_name ?c = ''odbc''" "win_rows demo_region = 2"
    by (simp_all add: demo_cfg_def demo_region_def)
  have r1: "snd (main_model (-999) demo_env ?c demo_region demo_cells) =
      Inl (Fatal (unsupported_msg ''odbc''))"
    using T[THEN conjunct1] unfolding n .
  have r2: "tables_of (fst (main_model (-999) demo_env ?c demo_region demo_cells)) =
      [(''maxpower'', table_columns (Suc 0))]"
    using T[THEN conjunct2, THEN conjunct1] unfolding demo_clamp n .
  have r3: "length (rows_of (fst (main_model (-999) demo_env ?c demo_region demo_cells))) = 2"
    using T[THEN conjunct2, THEN conjunct2, THEN conjunct1] unfolding n .
  have "lines_of (fst (main_model (-999) demo_env ?c demo_region demo_cells)) =
      all_records (-999) demo_env (demo_args\<lparr>drv_name := ''odbc'', db_perf := 99\<rparr>)"
    using T[THEN conjunct2, THEN conjunct2, THEN conjunct2, THEN conjunct1]
    unfolding demo_clamp demo_arrays demo_ecno demo_persist_args .
  then have r4: "lines_of (fst (main_model (-999) demo_env ?c demo_region demo_cells)) =
     [''100,200,25,'A',7,-80.00,'hata',0.00'', ''100,175,25,'A',7,-100.00,'hata',0.00'']"
    by (simp add: demo_records)
  have r5: "statements_of (fst (main_model (-999) demo_env ?c demo_region demo_cells)) = []"
    using T[THEN conjunct2, THEN conjunct2, THEN conjunct2, THEN conjunct2] .
  show ?thesis
    by (intro conjI) (rule h1 h2 c1 c2 c3 c4 c5 c6 c7 c8 c9 r1 r2 r3 r4 r5)+
qed


text \<open>
  Claim C3, as the code has it. Whatever the selection of the output (any selection
  for which \<^verbatim>\<open>main\<close> gets as far as writing the raster), a point whose strongest
  power is not above \<^verbatim>\<open>rx_thresh\<close> is null in the output raster. The data table or
  file does not depend on \<^verbatim>\<open>rx_thresh\<close> at all, and the points left out of it are
  exactly those whose strongest power equals \<^verbatim>\<open>DB_MIN_VAL\<close>: the CSV file holds
  the records of all other points; in the insert mode (the drivers \<^verbatim>\<open>dbf\<close> and
  \<^verbatim>\<open>sqlite\<close>, or \<^verbatim>\<open>dbperf\<close> from 1 to 98) the \<^verbatim>\<open>INSERT\<close> statements executed
  carry the records of all other points, raster row by raster row; and with
  \<^verbatim>\<open>dbperf=99\<close> the temporary file that is loaded into the table holds the records
  of all other points.
\<close>

theorem threshold_masks_raster_only:
  assumes "snd (main_output dbmin e c w P I S) = Inr ecno"
  shows "length (rows_of (fst (main_output dbmin e c w P I S))) = win_rows w \<and>
     (\<forall>row col. row < win_rows w \<and> col < win_cols w \<and>
          P ! 0 ! (row * win_cols w + col) \<le> rx_thresh c \<longrightarrow>
          rows_of (fst (main_output dbmin e c w P I S)) ! row ! col = None) \<and>
     main_persist dbmin e (c\<lparr>rx_thresh := t\<rparr>) w cells K P I ecno =
       main_persist dbmin e c w cells K P I ecno \<and>
     (drv_name c = ''csv'' \<and> (file_exists e \<longrightarrow> ovr c) \<and> open_ok e \<longrightarrow>
        snd (main_persist dbmin e c w cells K P I ecno) = Inr () \<and>
        lines_of (fst (main_persist dbmin e c w cells K P I ecno)) =
          concat (map (\<lambda>row. map (record_text e (persist_args c w cells K P I ecno) row)
                               (filter (\<lambda>col. P ! 0 ! (row * win_cols w + col) \<noteq> dbmin)
                                  [0..<win_cols w]))
                    [0..<win_rows w])) \<and>
     (drv_name c \<notin> {''none'', ''csv''} \<and>
      (drv_name c \<in> {''dbf'', ''sqlite''} \<or> (1 \<le> db_perf c \<and> db_perf c < 99)) \<and>
      begin_ok e \<and> commit_ok e \<and> (\<forall>q. exec_ok e q) \<longrightarrow>
        snd (main_persist dbmin e c w cells K P I ecno) = Inr () \<and>
        statements_of (fst (main_persist dbmin e c w cells K P I ecno)) =
          map (insert_sql (tbl_name c))
            (concat (map (\<lambda>row. chunks (if drv_name c \<in> {''dbf'', ''sqlite''} then 1
                                         else nat (db_perf c))
                                   (map (record_text e (persist_args c w cells K P I ecno) row)
                                      (filter (\<lambda>col. P ! 0 ! (row * win_cols w + col) \<noteq> dbmin)
                                         [0..<win_cols w])))
                       [0..<win_rows w]))) \<and>
     (drv_name c \<notin> {''none'', ''csv'', ''dbf'', ''sqlite''} \<and> (db_perf c < 0 \<or> 99 \<le> db_perf c) \<longrightarrow>
        lines_of (fst (main_persist dbmin e c w cells K P I ecno)) =
          concat (map (\<lambda>row. map (record_text e (persist_args c w cells K P I ecno) row)
                               (filter (\<lambda>col. P ! 0 ! (row * win_cols w + col) \<noteq> dbmin)
                                  [0..<win_cols w]))
                    [0..<win_rows w]))"
proof -
  let ?a = "persist_args c w cells K P I ecno"
  obtain sel where rows: "fst (main_output dbmin e c w P I S) =
       map (\<lambda>row. PutRow (map (\<lambda>col. out_cell dbmin c (fst sel) (snd sel) (P ! 0) (row * win_cols w + col))
                             [0..<win_cols w])) [0..<win_rows w] @ [CloseRaster]"
    using main_output_success[OF assms] by blast
  have a: "length (rows_of (fst (main_output dbmin e c w P I S))) = win_rows w"
    unfolding rows by simp
  have b: "\<forall>row col. row < win_rows w \<and> col < win_cols w \<and>
          P ! 0 ! (row * win_cols w + col) \<le> rx_thresh c \<longrightarrow>
          rows_of (fst (main_output dbmin e c w P I S)) ! row ! col = None"
    unfolding rows by (simp add: out_cell_def)
  have t: "main_persist dbmin e (c\<lparr>rx_thresh := t\<rparr>) w cells K P I ecno =
       main_persist dbmin e c w cells K P I ecno"
    by (rule main_persist_rx_thresh)
  have f: "drv_name c = ''csv'' \<and> (file_exists e \<longrightarrow> ovr c) \<and> open_ok e \<longrightarrow>
        snd (main_persist dbmin e c w cells K P I ecno) = Inr () \<and>
        lines_of (fst (main_persist dbmin e c w cells K P I ecno)) =
          concat (map (\<lambda>row. map (record_text e ?a row)
                               (filter (\<lambda>col. P ! 0 ! (row * win_cols w + col) \<noteq> dbmin)
                                  [0..<win_cols w]))
                    [0..<win_rows w])"
  proof
    assume h: "drv_name c = ''csv'' \<and> (file_exists e \<longrightarrow> ovr c) \<and> open_ok e"
    then have h1: "drv_name c = ''csv''" and h2: "file_exists e \<longrightarrow> ovr c" and h3: "open_ok e"
      by simp_all
    show "snd (main_persist dbmin e c w cells K P I ecno) = Inr () \<and>
        lines_of (fst (main_persist dbmin e c w cells K P I ecno)) =
          concat (map (\<lambda>row. map (record_text e ?a row)
                               (filter (\<lambda>col. P ! 0 ! (row * win_cols w + col) \<noteq> dbmin)
                                  [0..<win_cols w]))
                    [0..<win_rows w])"
      unfolding main_persist_csv[OF h1 h2 h3] all_records_persist by simp
  qed
  have g: "drv_name c \<notin> {''none'', ''csv''} \<and>
      (drv_name c \<in> {''dbf'', ''sqlite''} \<or> (1 \<le> db_perf c \<and> db_perf c < 99)) \<and>
      begin_ok e \<and> commit_ok e \<and> (\<forall>q. exec_ok e q) \<longrightarrow>
        snd (main_persist dbmin e c w cells K P I ecno) = Inr () \<and>
        statements_of (fst (main_persist dbmin e c w cells K P I ecno)) =
          map (insert_sql (tbl_name c))
            (concat (map (\<lambda>row. chunks (if drv_name c \<in> {''dbf'', ''sqlite''} then 1
                                         else nat (db_perf c))
                                   (map (record_text e ?a row)
                                      (filter (\<lambda>col. P ! 0 ! (row * win_cols w + col) \<noteq> dbmin)
                                         [0..<win_cols w])))
                       [0..<win_rows w]))"
  proof
    assume h: "drv_name c \<notin> {''none'', ''csv''} \<and>
      (drv_name c \<in> {''dbf'', ''sqlite''} \<or> (1 \<le> db_perf c \<and> db_perf c < 99)) \<and>
      begin_ok e \<and> commit_ok e \<and> (\<forall>q. exec_ok e q)"
    then have h1: "drv_name c \<notin> {''none'', ''csv''}"
      and h2: "drv_name c \<in> {''dbf'', ''sqlite''} \<or> (1 \<le> db_perf c \<and> db_perf c < 99)"
      and h3: "begin_ok e" and h4: "commit_ok e" and h5: "\<forall>q. exec_ok e q"
      by blast+
    show "snd (main_persist dbmin e c w cells K P I ecno) = Inr () \<and>
        statements_of (fst (main_persist dbmin e c w cells K P I ecno)) =
          map (insert_sql (tbl_name c))
            (concat (map (\<lambda>row. chunks (if drv_name c \<in> {''dbf'', ''sqlite''} then 1
                                         else nat (db_perf c))
                                   (map (record_text e ?a row)
                                      (filter (\<lambda>col. P ! 0 ! (row * win_cols w + col) \<noteq> dbmin)
                                         [0..<win_cols w])))
                       [0..<win_rows w]))"
      unfolding main_persist_insert[OF h1 h2 h3 h4 h5] row_records_persist by simp
  qed
  have s: "drv_name c \<notin> {''none'', ''csv'', ''dbf'', ''sqlite''} \<and> (db_perf c < 0 \<or> 99 \<le> db_perf c) \<longrightarrow>
        lines_of (fst (main_persist dbmin e c w cells K P I ecno)) =
          concat (map (\<lambda>row. map (record_text e ?a row)
                               (filter (\<lambda>col. P ! 0 ! (row * win_cols w + col) \<noteq> dbmin)
                                  [0..<win_cols w]))
                    [0..<win_rows w])"
  proof
    assume h: "drv_name c \<notin> {''none'', ''csv'', ''dbf'', ''sqlite''} \<and> (db_perf c < 0 \<or> 99 \<le> db_perf c)"
    then have h1: "drv_name c \<notin> {''none'', ''csv'', ''dbf'', ''sqlite''}"
      and h2: "db_perf c < 0 \<or> 99 \<le> db_perf c" by blast+
    show "lines_of (fst (main_persist dbmin e c w cells K P I ecno)) =
          concat (map (\<lambda>row. map (record_text e ?a row)
                               (filter (\<lambda>col. P ! 0 ! (row * win_cols w + col) \<noteq> dbmin)
                                  [0..<win_cols w]))
                    [0..<win_rows w])"
      unfolding main_persist_staged_lines[OF h1 h2] all_records_persist ..
  qed
  show ?thesis by (intro conjI) (rule a b t f g s)+
qed

theorem threshold_masks_raster_only_witness:
  "snd (main_output (-999) demo_env (demo_cfg\<lparr>drv_name := ''mysql'', db_perf := 2\<rparr>) demo_region
          [[-80, -100]] [[0, 0]] [-80, -100]) = Inr [0, 0] \<and>
   [[-80, -100 :: real]] ! 0 ! (1 * win_cols demo_region + 0) \<le>
     rx_thresh (demo_cfg\<lparr>drv_name := ''mysql'', db_perf := 2\<rparr>) \<and>
   rows_of (fst (main_output (-999) demo_env (demo_cfg\<lparr>drv_name := ''mysql'', db_perf := 2\<rparr>)
                   demo_region [[-80, -100]] [[0, 0]] [-80, -100])) ! 1 ! 0 = None \<and>
   begin_ok demo_env \<and> commit_ok demo_env \<and> (\<forall>q. exec_ok demo_env q) \<and>
   snd (main_persist (-999) demo_env (demo_cfg\<lparr>drv_name := ''mysql'', db_perf := 2\<rparr>)
          demo_region demo_cells (Suc 0) [[-80, -100]] [[0, 0]] [0, 0]) = Inr () \<and>
   statements_of (fst (main_persist (-999) demo_env (demo_cfg\<lparr>drv_name := ''mysql'', db_perf := 2\<rparr>)
          demo_region demo_cells (Suc 0) [[-80, -100]] [[0, 0]] [0, 0])) =
     [''INSERT INTO maxpower VALUES (100,200,25,'A',7,-80.00,'hata',0.00)'',
      ''INSERT INTO maxpower VALUES (100,175,25,'A',7,-100.00,'hata',0.00)'']"
proof -
  let ?c = "demo_cfg\<lparr>drv_name := ''mysql'', db_perf := 2\<rparr>"
  let ?P = "[[-80, -100 :: real]]"
  have h: "snd (main_output (-999) demo_env ?c demo_region ?P [[0, 0]] [-80, -100]) = Inr [0, 0]"
    by (simp add: demo_output)
  have g: "(1::nat) < win_rows demo_region \<and> (0::nat) < win_cols demo_region \<and>
      ?P ! 0 ! (1 * win_cols demo_region + 0) \<le> rx_thresh ?c"
    by (simp add: demo_region_def demo_cfg_def)
  have g3: "?P ! 0 ! (1 * win_cols demo_region + 0) \<le> rx_thresh ?c"
    using g by (elim conjE)
  have k: "drv_name ?c \<notin> {''none'', ''csv''} \<and>
      (drv_name ?c \<in> {''dbf'', ''sqlite''} \<or> (1 \<le> db_perf ?c \<and> db_perf ?c < 99)) \<and>
      begin_ok demo_env \<and> commit_ok demo_env \<and> (\<forall>q. exec_ok demo_env q)"
    by (simp add: demo_env_def)
  note T = threshold_masks_raster_only[OF h, where t = 0 and cells = demo_cells and K = "Suc 0"]
  note T2 = T[THEN conjunct2, THEN conjunct1]
  note T5 = T[THEN conjunct2, THEN conjunct2, THEN conjunct2, THEN conjunct2, THEN conjunct1]
  have r: "rows_of (fst (main_output (-999) demo_env ?c demo_region ?P [[0, 0]] [-80, -100])) ! 1 ! 0 = None"
    using T2 g by blast
  have eq: "(\<lambda>row. map (record_text demo_env demo_args row)
                 (filter (\<lambda>col. ?P ! 0 ! (row * win_cols demo_region + col) \<noteq> -999)
                    [0..<win_cols demo_region])) = row_records (-999) demo_env demo_args"
    using row_records_persist[where d = "-999" and e = demo_env and c = ?c and w = demo_region
        and cells = demo_cells and K = "Suc 0" and P = ?P and I = "[[0, 0]]" and ecno = "[0, 0]"]
    unfolding demo_persist_insert by (rule sym)
  have n: "tbl_name ?c = ''maxpower''" "drv_name ?c = ''mysql''" "nat (db_perf ?c) = 2"
    "[0..<win_rows demo_region] = [0, Suc 0]"
    by (simp_all add: demo_cfg_def demo_region_def numeral_2_eq_2)
  from T5 k have p: "snd (main_persist (-999) demo_env ?c demo_region demo_cells (Suc 0) ?P [[0, 0]] [0, 0]) = Inr () \<and>
      statements_of (fst (main_persist (-999) demo_env ?c demo_region demo_cells (Suc 0) ?P [[0, 0]] [0, 0])) =
        map (insert_sql (tbl_name ?c))
            (concat (map (\<lambda>row. chunks (if drv_name ?c \<in> {''dbf'', ''sqlite''} then 1
                                         else nat (db_perf ?c))
                                   (map (record_text demo_env
                                           (persist_args ?c demo_region demo_cells (Suc 0) ?P [[0, 0]] [0, 0]) row)
                                      (filter (\<lambda>col. ?P ! 0 ! (row * win_cols demo_region + col) \<noteq> -999)
                                         [0..<win_cols demo_region])))
                       [0..<win_rows demo_region]))"
    by (rule mp)
  then have p1: "snd (main_persist (-999) demo_env ?c demo_region demo_cells (Suc 0) ?P [[0, 0]] [0, 0]) = Inr ()"
    by (rule conjunct1)
  have "statements_of (fst (main_persist (-999) demo_env ?c demo_region demo_cells (Suc 0) ?P [[0, 0]] [0, 0])) =
        map (insert_sql (tbl_name ?c))
            (concat (map (\<lambda>row. chunks (if drv_name ?c \<in> {''dbf'', ''sqlite''} then 1
                                         else nat (db_perf ?c))
                                   (row_records (-999) demo_env demo_args row))
                       [0..<win_rows demo_region]))"
    using p[THEN conjunct2] unfolding demo_persist_insert eq[THEN fun_cong] .
  then have p2: "statements_of (fst (main_persist (-999) demo_env ?c demo_region demo_cells (Suc 0) ?P [[0, 0]] [0, 0])) =
     [''INSERT INTO maxpower VALUES (100,200,25,'A',7,-80.00,'hata',0.00)'',
      ''INSERT INTO maxpower VALUES (100,175,25,'A',7,-100.00,'hata',0.00)'']"
    unfolding n by (simp add: demo_row0 demo_row1 chunks_short)
  show ?thesis
    by (intro conjI) (rule h g3 r demo_ok(1) demo_ok(2) demo_ok(3) p1 p2)+
qed

text \<open>
  The claim as the specification states it fails for the data file: in the example run
  the threshold is -90 dBm and the second point receives -100 dBm. The point is
  null in the output raster, and yet its record is written to the CSV file.
\<close>

theorem point_below_threshold_is_persisted:
  "final_power (-999) demo_env demo_region demo_cells 1 = [[-80, -100]] \<and>
   (-100 :: real) \<le> rx_thresh demo_cfg \<and>
   snd (main_model (-999) demo_env demo_cfg demo_region demo_cells) = Inr () \<and>
   rows_of (fst (main_model (-999) demo_env demo_cfg demo_region demo_cells)) =
     [[Some (-80)], [None]] \<and>
   lines_of (fst (main_model (-999) demo_env demo_cfg demo_region demo_cells)) =
     [''100,200,25,'A',7,-80.00,'hata',0.00'', ''100,175,25,'A',7,-100.00,'hata',0.00'']"
proof -
  have m: "main_model (-999) demo_env demo_cfg demo_region demo_cells =
     seq (main_setup demo_env (demo_cfg\<lparr>drv_name := ''csv''\<rparr>) demo_cells)
       (\<lambda>n. seq ([OpenRaster ''best'', Message ''Sorting receive power values'',
                   ReadRaster ''lossA'', Message ''Finished sorting receive power values'',
                   PutRow [Some (-80)], PutRow [None], CloseRaster], Inr ())
              (\<lambda>_. steps [main_persist (-999) demo_env demo_cfg
                             demo_region demo_cells 1 [[-80, -100]] [[0, 0]] [0, 0],
                           emit (WriteHistory ''best'')]))"
    using demo_main[where drv = "''csv''" and p = 20] unfolding demo_cfg_csv .
  have t: "(-100 :: real) \<le> rx_thresh demo_cfg" by (simp add: demo_cfg_def)
  show ?thesis
    unfolding m using t
    by (simp add: demo_setup demo_persist_csv demo_arrays steps.simps run_defs)
qed



end
